theory Spec2Isabelle
  imports Complex_Main "HOL-Library.Multiset" "HOL-Library.Sublist"
    "HOL-Library.List_Lexorder" "HOL-Library.Char_ord"
begin

section \<open>Score fusion of the rerank endpoint\<close>

text \<open>
  The handler of \<^verbatim>\<open>POST /api/search/rerank\<close> receives two candidate lists from the
  search backend (lexical BM25 hits and vector hits), normalises their raw scores,
  merges them in a JavaScript \<^verbatim>\<open>Map\<close> keyed by the document id, applies one of three
  fusion formulas, sorts and cuts the list.

  JavaScript numbers are modelled as \<^typ>\<open>real\<close>: the formulas are read as exact
  arithmetic. A \<^verbatim>\<open>Map\<close> keeps its keys in insertion order, so it is modelled as an
  association list in which \<^verbatim>\<open>set\<close> replaces an existing key in place and
  appends a new one. The remaining payload of a stored document (\<^verbatim>\<open>...doc\<close>) is
  carried along unchanged by the source and is left out of the records.
\<close>

text \<open>
  A candidate is a document returned by one of the two aggregations: its id
  (\<^verbatim>\<open>doc._id.toString()\<close>) and its raw score (\<^verbatim>\<open>bm25Score\<close> in the lexical list,
  \<^verbatim>\<open>vectorScore\<close> in the vector list).
\<close>

record candidate =
  cand_id :: string
  cand_score :: real

datatype found_in = Bm25 | Vector | Both

record entry =
  entry_id :: string
  bm25Score :: real
  bm25Normalized :: real
  bm25Rank :: "nat option"
  vectorScore :: real
  vectorNormalized :: real
  vectorRank :: "nat option"
  foundIn :: found_in

type_synonym ('k, 'v) js_map = "('k \<times> 'v) list"

type_synonym result_map = "(string, entry) js_map"

fun map_has :: "'k \<Rightarrow> ('k, 'v) js_map \<Rightarrow> bool" where
  "map_has k [] = False"
| "map_has k ((k', v') # m) = (if k = k' then True else map_has k m)"

fun map_get :: "'k \<Rightarrow> ('k, 'v) js_map \<Rightarrow> 'v option" where
  "map_get k [] = None"
| "map_get k ((k', v') # m) = (if k = k' then Some v' else map_get k m)"

fun map_set :: "'k \<Rightarrow> 'v \<Rightarrow> ('k, 'v) js_map \<Rightarrow> ('k, 'v) js_map" where
  "map_set k v [] = [(k, v)]"
| "map_set k v ((k', v') # m) = (if k = k' then (k, v) # m else (k', v') # map_set k v m)"

definition map_values :: "('k, 'v) js_map \<Rightarrow> 'v list" where
  "map_values m = map snd m"

text \<open>
  \<^verbatim>\<open>Math.min(...scores, 0)\<close> and \<^verbatim>\<open>Math.max(...scores, 1)\<close>: the least (greatest) of
  the scores and of the extra last argument.
\<close>

definition Math_min_with :: "real list \<Rightarrow> real \<Rightarrow> real" where
  "Math_min_with scores d = foldr min scores d"

definition Math_max_with :: "real list \<Rightarrow> real \<Rightarrow> real" where
  "Math_max_with scores d = foldr max scores d"

definition minBM25 :: "candidate list \<Rightarrow> real" where
  "minBM25 bm25Results = Math_min_with (map cand_score bm25Results) 0"

definition maxBM25 :: "candidate list \<Rightarrow> real" where
  "maxBM25 bm25Results = Math_max_with (map cand_score bm25Results) 1"

definition minVector :: "candidate list \<Rightarrow> real" where
  "minVector vectorResults = Math_min_with (map cand_score vectorResults) 0"

definition maxVector :: "candidate list \<Rightarrow> real" where
  "maxVector vectorResults = Math_max_with (map cand_score vectorResults) 1"

definition normalizeBM25 :: "real \<Rightarrow> real \<Rightarrow> real \<Rightarrow> real" where
  "normalizeBM25 score minScore maxScore =
     (if maxScore = minScore then 1 else (score - minScore) / (maxScore - minScore))"

definition normalizeVector :: "real \<Rightarrow> real \<Rightarrow> real \<Rightarrow> real" where
  "normalizeVector score minScore maxScore =
     (if maxScore = minScore then 1 else (score - minScore) / (maxScore - minScore))"

text \<open>\<^verbatim>\<open>bm25Results.forEach((doc, index) => ...)\<close>: the index is threaded through.\<close>

definition bm25_entry :: "real \<Rightarrow> real \<Rightarrow> candidate \<Rightarrow> nat \<Rightarrow> entry" where
  "bm25_entry lo hi doc index =
     \<lparr> entry_id = cand_id doc,
       bm25Score = cand_score doc,
       bm25Normalized = normalizeBM25 (cand_score doc) lo hi,
       bm25Rank = Some (index + 1),
       vectorScore = 0,
       vectorNormalized = 0,
       vectorRank = None,
       foundIn = Bm25 \<rparr>"

fun process_bm25 :: "real \<Rightarrow> real \<Rightarrow> nat \<Rightarrow> candidate list \<Rightarrow> result_map \<Rightarrow> result_map" where
  "process_bm25 lo hi index [] m = m"
| "process_bm25 lo hi index (doc # docs) m =
     process_bm25 lo hi (Suc index) docs (map_set (cand_id doc) (bm25_entry lo hi doc index) m)"

definition vector_entry :: "real \<Rightarrow> real \<Rightarrow> candidate \<Rightarrow> nat \<Rightarrow> entry" where
  "vector_entry lo hi doc index =
     \<lparr> entry_id = cand_id doc,
       bm25Score = 0,
       bm25Normalized = 0,
       bm25Rank = None,
       vectorScore = cand_score doc,
       vectorNormalized = normalizeVector (cand_score doc) lo hi,
       vectorRank = Some (index + 1),
       foundIn = Vector \<rparr>"

definition merge_vector :: "real \<Rightarrow> real \<Rightarrow> candidate \<Rightarrow> nat \<Rightarrow> entry \<Rightarrow> entry" where
  "merge_vector lo hi doc index existing =
     existing \<lparr> vectorScore := cand_score doc,
                vectorNormalized := normalizeVector (cand_score doc) lo hi,
                vectorRank := Some (index + 1),
                foundIn := Both \<rparr>"

definition vector_step :: "real \<Rightarrow> real \<Rightarrow> candidate \<Rightarrow> nat \<Rightarrow> result_map \<Rightarrow> result_map" where
  "vector_step lo hi doc index m =
     (if map_has (cand_id doc) m
      then (case map_get (cand_id doc) m of
              Some existing \<Rightarrow> map_set (cand_id doc) (merge_vector lo hi doc index existing) m
            | None \<Rightarrow> m)
      else map_set (cand_id doc) (vector_entry lo hi doc index) m)"

fun process_vector :: "real \<Rightarrow> real \<Rightarrow> nat \<Rightarrow> candidate list \<Rightarrow> result_map \<Rightarrow> result_map" where
  "process_vector lo hi index [] m = m"
| "process_vector lo hi index (doc # docs) m =
     process_vector lo hi (Suc index) docs (vector_step lo hi doc index m)"

definition resultMap :: "candidate list \<Rightarrow> candidate list \<Rightarrow> result_map" where
  "resultMap bm25Results vectorResults =
     process_vector (minVector vectorResults) (maxVector vectorResults) 0 vectorResults
       (process_bm25 (minBM25 bm25Results) (maxBM25 bm25Results) 0 bm25Results [])"

definition allResults :: "candidate list \<Rightarrow> candidate list \<Rightarrow> entry list" where
  "allResults bm25Results vectorResults = map_values (resultMap bm25Results vectorResults)"

subsection \<open>Fusion formulas\<close>

record fused =
  fdoc :: entry
  fusedScore :: real

text \<open>
  \<^verbatim>\<open>doc.bm25Rank ? 1 / (k + doc.bm25Rank) : 0\<close>: a rank is falsy when it is
  \<^verbatim>\<open>null\<close> or \<^verbatim>\<open>0\<close>.
\<close>

definition truthy_rank :: "nat option \<Rightarrow> bool" where
  "truthy_rank r = (case r of None \<Rightarrow> False | Some n \<Rightarrow> n \<noteq> 0)"

definition rrf_k :: nat where
  "rrf_k = 60"

definition rrf_fuse :: "entry \<Rightarrow> fused" where
  "rrf_fuse doc =
     (let bm25RRF = (if truthy_rank (bm25Rank doc) then 1 / real (rrf_k + the (bm25Rank doc)) else 0);
          vectorRRF = (if truthy_rank (vectorRank doc) then 1 / real (rrf_k + the (vectorRank doc)) else 0)
      in \<lparr> fdoc = doc, fusedScore = bm25RRF + vectorRRF \<rparr>)"

definition weighted_fuse :: "real \<Rightarrow> real \<Rightarrow> entry \<Rightarrow> fused" where
  "weighted_fuse bm25Weight vectorWeight doc =
     \<lparr> fdoc = doc,
       fusedScore = bm25Normalized doc * bm25Weight + vectorNormalized doc * vectorWeight \<rparr>"

definition reciprocal_fuse :: "real \<Rightarrow> real \<Rightarrow> entry \<Rightarrow> fused" where
  "reciprocal_fuse bm25Weight vectorWeight doc =
     (let bm25Reciprocal =
            (if truthy_rank (bm25Rank doc) then (1 / real (the (bm25Rank doc))) * bm25Weight else 0);
          vectorReciprocal =
            (if truthy_rank (vectorRank doc) then (1 / real (the (vectorRank doc))) * vectorWeight else 0)
      in \<lparr> fdoc = doc, fusedScore = bm25Reciprocal + vectorReciprocal \<rparr>)"

text \<open>
  The dispatch is an \<^verbatim>\<open>if / else if / else if\<close> chain without a final
  \<^verbatim>\<open>else\<close>: for any other method name \<^verbatim>\<open>fusedResults\<close> keeps its initial value,
  the empty array.
\<close>

definition fuse :: "string \<Rightarrow> real \<Rightarrow> real \<Rightarrow> entry list \<Rightarrow> fused list" where
  "fuse fusionMethod bm25Weight vectorWeight docs =
     (if fusionMethod = ''rrf'' then map rrf_fuse docs
      else if fusionMethod = ''weighted'' then map (weighted_fuse bm25Weight vectorWeight) docs
      else if fusionMethod = ''reciprocal'' then map (reciprocal_fuse bm25Weight vectorWeight) docs
      else [])"

text \<open>
  \<^verbatim>\<open>fusedResults.sort((a, b) => b.fusedScore - a.fusedScore)\<close>: the array sort of
  JavaScript is stable, and the comparator orders by descending fused score only. A
  stable sort by a key has exactly one result, the one insertion sort computes.
\<close>

definition sort_by_fused :: "fused list \<Rightarrow> fused list" where
  "sort_by_fused fs = sort_key (\<lambda>d. - fusedScore d) fs"

definition fusedResults :: "string \<Rightarrow> real \<Rightarrow> real \<Rightarrow> candidate list \<Rightarrow> candidate list \<Rightarrow> fused list" where
  "fusedResults fusionMethod bm25Weight vectorWeight bm25Results vectorResults =
     sort_by_fused (fuse fusionMethod bm25Weight vectorWeight (allResults bm25Results vectorResults))"

text \<open>
  \<^verbatim>\<open>arr.slice(0, end)\<close> for an integer \<^verbatim>\<open>end\<close>: a negative end counts from the
  end of the array.
\<close>

definition slice0 :: "'a list \<Rightarrow> int \<Rightarrow> 'a list" where
  "slice0 xs e =
     (let n = int (length xs);
          final = (if e < 0 then max (n + e) 0 else min e n)
      in take (nat final) xs)"

subsection \<open>Ranking information\<close>

record ranked =
  rdoc :: fused
  newRank :: nat
  originalRank :: nat
  rankChange :: int

text \<open>\<^verbatim>\<open>doc.bm25Rank || doc.vectorRank || index + 1\<close>\<close>

definition rank_or :: "nat option \<Rightarrow> nat \<Rightarrow> nat" where
  "rank_or r alt = (if truthy_rank r then the r else alt)"

fun add_ranks :: "nat \<Rightarrow> fused list \<Rightarrow> ranked list" where
  "add_ranks index [] = []"
| "add_ranks index (d # ds) =
     (let nr = index + 1;
          orig = rank_or (bm25Rank (fdoc d)) (rank_or (vectorRank (fdoc d)) (index + 1))
      in \<lparr> rdoc = d, newRank = nr, originalRank = orig, rankChange = int orig - int nr \<rparr>)
     # add_ranks (Suc index) ds"

section \<open>Request handling\<close>

text \<open>
  A request body is a parsed JSON object; a property that is absent (\<^verbatim>\<open>undefined\<close>)
  is \<^term>\<open>None\<close>, and a destructuring default applies exactly then. The
  \<^verbatim>\<open>filters\<close> property is handed to the search backend and is not part of the
  model: requests are taken without filters.
\<close>

record request_body =
  rq_query :: "string option"
  rq_limit :: "int option"
  rq_fusionMethod :: "string option"
  rq_rerankTopK :: "int option"
  rq_bm25Weight :: "real option"
  rq_vectorWeight :: "real option"

definition or_default :: "'a option \<Rightarrow> 'a \<Rightarrow> 'a" where
  "or_default x d = (case x of None \<Rightarrow> d | Some v \<Rightarrow> v)"


record search_params =
  sp_limit :: int

record hybrid_params =
  hp_limit :: int
  hp_bm25Weight :: real
  hp_vectorWeight :: real

record rerank_params =
  rp_limit :: int
  rp_fusionMethod :: string
  rp_rerankTopK :: int
  rp_bm25Weight :: real
  rp_vectorWeight :: real

text \<open>\<^verbatim>\<open>const { query, limit = 5, filters = {} } = req.body\<close> of \<^verbatim>\<open>POST /api/search\<close>\<close>

definition search_defaults :: "request_body \<Rightarrow> search_params" where
  "search_defaults body = \<lparr> sp_limit = or_default (rq_limit body) 5 \<rparr>"

text \<open>\<^verbatim>\<open>const { query, limit = 10, filters = {}, fields = [...] } = req.body\<close> of
  \<^verbatim>\<open>POST /api/search/bm25\<close>\<close>

definition bm25_defaults :: "request_body \<Rightarrow> search_params" where
  "bm25_defaults body = \<lparr> sp_limit = or_default (rq_limit body) 10 \<rparr>"

text \<open>\<^verbatim>\<open>limit = 10, bm25Weight = 0.5, vectorWeight = 0.5\<close> of \<^verbatim>\<open>POST /api/search/hybrid\<close>\<close>

definition hybrid_defaults :: "request_body \<Rightarrow> hybrid_params" where
  "hybrid_defaults body =
     \<lparr> hp_limit = or_default (rq_limit body) 10,
       hp_bm25Weight = or_default (rq_bm25Weight body) 0.5,
       hp_vectorWeight = or_default (rq_vectorWeight body) 0.5 \<rparr>"

text \<open>\<^verbatim>\<open>limit = 10, fusionMethod = 'rrf', rerankTopK = 50, bm25Weight = 0.4,
  vectorWeight = 0.6\<close> of \<^verbatim>\<open>POST /api/search/rerank\<close>\<close>

definition rerank_defaults :: "request_body \<Rightarrow> rerank_params" where
  "rerank_defaults body =
     \<lparr> rp_limit = or_default (rq_limit body) 10,
       rp_fusionMethod = or_default (rq_fusionMethod body) ''rrf'',
       rp_rerankTopK = or_default (rq_rerankTopK body) 50,
       rp_bm25Weight = or_default (rq_bm25Weight body) 0.4,
       rp_vectorWeight = or_default (rq_vectorWeight body) 0.6 \<rparr>"

subsection \<open>The remote services\<close>




subsection \<open>Validation of database, collection and index\<close>




datatype 'a http_response =
    ErrorJson nat string
  | OkJson 'a

definition http_status :: "'a http_response \<Rightarrow> nat" where
  "http_status r = (case r of ErrorJson code msg \<Rightarrow> code | OkJson body \<Rightarrow> 200)"

subsection \<open>The rerank handler\<close>

record rerank_result =
  rr_success :: bool
  rr_fusionMethod :: string
  rr_results :: "ranked list"
  rr_beforeReranking :: "candidate list"
  rr_count :: nat
  rr_totalCandidates :: nat
  rr_rerankTopK :: int
  rr_weights :: "real \<times> real"

text \<open>
  The steps of the handler in the order of the source: destructuring with defaults, the
  query check (400), the database connection, one embedding call (any failure is thrown
  and caught by the handler's \<^verbatim>\<open>catch\<close>, which answers 500), the two searches
  (\<^verbatim>\<open>Promise.all\<close> rejects when either aggregation throws), fusion, sort, ranking
  information, the cut to \<^verbatim>\<open>limit\<close>, the success body. The second component is the
  embedding service after the request.
\<close>

definition rerank_fusion :: "rerank_params \<Rightarrow> candidate list \<Rightarrow> candidate list \<Rightarrow> rerank_result" where
  "rerank_fusion p bm25Results vectorResults =
     (let fusedRanked =
            add_ranks 0 (fusedResults (rp_fusionMethod p) (rp_bm25Weight p) (rp_vectorWeight p)
                           bm25Results vectorResults);
          beforeResults =
            slice0 (if rp_fusionMethod p = ''rrf'' then vectorResults else bm25Results) (rp_limit p);
          after = slice0 fusedRanked (rp_limit p)
      in \<lparr> rr_success = True,
           rr_fusionMethod = rp_fusionMethod p,
           rr_results = after,
           rr_beforeReranking = beforeResults,
           rr_count = length after,
           rr_totalCandidates = length fusedRanked,
           rr_rerankTopK = rp_rerankTopK p,
           rr_weights = (rp_bm25Weight p, rp_vectorWeight p) \<rparr>)"


subsection \<open>The hybrid handler\<close>

record hybrid_entry =
  h_id :: string
  h_bm25Score :: real
  bm25ScoreNormalized :: real
  h_vectorScore :: real
  vectorScoreNormalized :: real
  hybridScore :: real
  h_foundIn :: found_in

text \<open>\<^verbatim>\<open>const bm25Range = bm25Max - bm25Min || 1\<close>\<close>

definition score_range :: "real \<Rightarrow> real \<Rightarrow> real" where
  "score_range hi lo = (if hi - lo = 0 then 1 else hi - lo)"

definition bm25Max :: "candidate list \<Rightarrow> real" where
  "bm25Max bm25Results = Math_max_with (map cand_score bm25Results) 1"

definition bm25Min :: "candidate list \<Rightarrow> real" where
  "bm25Min bm25Results = Math_min_with (map cand_score bm25Results) 0"

definition vectorMax :: "candidate list \<Rightarrow> real" where
  "vectorMax vectorResults = Math_max_with (map cand_score vectorResults) 1"

definition vectorMin :: "candidate list \<Rightarrow> real" where
  "vectorMin vectorResults = Math_min_with (map cand_score vectorResults) 0"

text \<open>
  The normalised score that both loops of the hybrid handler compute for a result of
  their list: \<^verbatim>\<open>(score - min) / range\<close>.
\<close>

definition hybrid_normalized :: "candidate list \<Rightarrow> real \<Rightarrow> real" where
  "hybrid_normalized results score =
     (score - Math_min_with (map cand_score results) 0)
       / score_range (Math_max_with (map cand_score results) 1) (Math_min_with (map cand_score results) 0)"

definition hybrid_bm25_entry :: "candidate list \<Rightarrow> real \<Rightarrow> candidate \<Rightarrow> hybrid_entry" where
  "hybrid_bm25_entry bm25Results bm25Weight result =
     (let normalizedScore = (cand_score result - bm25Min bm25Results)
                              / score_range (bm25Max bm25Results) (bm25Min bm25Results)
      in \<lparr> h_id = cand_id result,
           h_bm25Score = cand_score result,
           bm25ScoreNormalized = normalizedScore,
           h_vectorScore = 0,
           vectorScoreNormalized = 0,
           hybridScore = normalizedScore * bm25Weight,
           h_foundIn = Bm25 \<rparr>)"

definition hybrid_vector_step ::
  "candidate list \<Rightarrow> real \<Rightarrow> candidate \<Rightarrow> (string, hybrid_entry) js_map \<Rightarrow> (string, hybrid_entry) js_map" where
  "hybrid_vector_step vectorResults vectorWeight result m =
     (let normalizedScore = (cand_score result - vectorMin vectorResults)
                              / score_range (vectorMax vectorResults) (vectorMin vectorResults)
      in if map_has (cand_id result) m
         then (case map_get (cand_id result) m of
                 Some existing \<Rightarrow>
                   map_set (cand_id result)
                     (existing \<lparr> h_vectorScore := cand_score result,
                                 vectorScoreNormalized := normalizedScore,
                                 hybridScore := hybridScore existing + normalizedScore * vectorWeight,
                                 h_foundIn := Both \<rparr>) m
               | None \<Rightarrow> m)
         else map_set (cand_id result)
                \<lparr> h_id = cand_id result,
                  h_bm25Score = 0,
                  bm25ScoreNormalized = 0,
                  h_vectorScore = cand_score result,
                  vectorScoreNormalized = normalizedScore,
                  hybridScore = normalizedScore * vectorWeight,
                  h_foundIn = Vector \<rparr> m)"

definition hybrid_resultMap ::
  "real \<Rightarrow> real \<Rightarrow> candidate list \<Rightarrow> candidate list \<Rightarrow> (string, hybrid_entry) js_map" where
  "hybrid_resultMap bm25Weight vectorWeight bm25Results vectorResults =
     foldl (\<lambda>m result. hybrid_vector_step vectorResults vectorWeight result m)
       (foldl (\<lambda>m result. map_set (cand_id result) (hybrid_bm25_entry bm25Results bm25Weight result) m)
          [] bm25Results)
       vectorResults"





section \<open>Deduplication\<close>

text \<open>
  A JavaScript string is a sequence of UTF-16 code units, modelled as a list of
  natural numbers; \<open>js\<close> writes an ASCII literal as such a list. An item of the posted
  \<^verbatim>\<open>results\<close> array: the handler reads its \<^verbatim>\<open>title\<close> and its \<^verbatim>\<open>id\<close>, either of which
  may be absent; the other properties are copied through.
\<close>

type_synonym jstring = "nat list"

definition js :: "string \<Rightarrow> jstring" where
  "js s = map of_char s"

record item =
  title :: "jstring option"
  item_id :: "string option"

text \<open>
  The class \<^verbatim>\<open>\s\<close> of a regular expression: the white space and line terminator code
  points of the language (tab, line feed, vertical tab, form feed, carriage return,
  space, no-break space, the Unicode space separators, line and paragraph separator,
  and the byte order mark), each a single code unit.
\<close>

definition is_space :: "nat \<Rightarrow> bool" where
  "is_space c =
     (c \<in> set [0x09, 0x0A, 0x0B, 0x0C, 0x0D, 0x20, 0xA0, 0x1680,
                0x2000, 0x2001, 0x2002, 0x2003, 0x2004, 0x2005, 0x2006, 0x2007, 0x2008,
                0x2009, 0x200A, 0x2028, 0x2029, 0x202F, 0x205F, 0x3000, 0xFEFF])"

text \<open>
  \<^verbatim>\<open>s.split(/\s+/)\<close>: the pieces between the maximal runs of white space. A string
  that starts (ends) with white space has an empty first (last) piece, and the empty
  string splits into one empty piece. The flag tells that the previous character was
  white space; \<open>cur\<close> is the current piece, reversed.
\<close>

fun split_ws :: "bool \<Rightarrow> jstring \<Rightarrow> jstring \<Rightarrow> jstring list" where
  "split_ws insep cur [] = [rev cur]"
| "split_ws insep cur (c # cs) =
     (if is_space c
      then (if insep then split_ws True cur cs else rev cur # split_ws True [] cs)
      else split_ws False (c # cur) cs)"

definition split_whitespace :: "jstring \<Rightarrow> jstring list" where
  "split_whitespace s = split_ws False [] s"

text \<open>
  A JavaScript \<^verbatim>\<open>Set\<close> of strings: the distinct elements in the order of their first
  insertion; its \<^verbatim>\<open>size\<close> is the length of that list.
\<close>

definition set_add :: "'a \<Rightarrow> 'a list \<Rightarrow> 'a list" where
  "set_add x s = (if x \<in> set s then s else s @ [x])"

definition new_Set :: "'a list \<Rightarrow> 'a list" where
  "new_Set xs = foldl (\<lambda>s x. set_add x s) [] xs"

text \<open>
  \<^verbatim>\<open>String.prototype.toLowerCase\<close> is a function of the platform, with the case
  mappings of Unicode; it is not part of the repository. Every definition that calls it
  takes it as the parameter \<open>toLowerCase\<close>, so that what is proved holds for the
  platform's function, whatever its table.
\<close>

definition calculateTextSimilarity :: "(jstring \<Rightarrow> jstring) \<Rightarrow> jstring \<Rightarrow> jstring \<Rightarrow> real" where
  "calculateTextSimilarity toLowerCase text1 text2 =
     (let words1 = new_Set (split_whitespace (toLowerCase text1));
          words2 = new_Set (split_whitespace (toLowerCase text2));
          intersection = new_Set (filter (\<lambda>x. x \<in> set words2) words1);
          union = new_Set (words1 @ words2)
      in real (length intersection) / real (length union))"

text \<open>
  A removed record is the item with two more properties. The source stores the
  similarity as a string of three decimals; the record holds the number.
\<close>

record duplicate =
  dup_item :: item
  duplicateOf :: "string option"
  similarity :: real

record dedup_state =
  deduplicated :: "item list"
  duplicates :: "duplicate list"
  seenTitles :: "(jstring, item) js_map"

text \<open>\<^verbatim>\<open>result.title?.toLowerCase() || ''\<close>\<close>

definition title_key :: "(jstring \<Rightarrow> jstring) \<Rightarrow> item \<Rightarrow> jstring" where
  "title_key toLowerCase result = (case title result of None \<Rightarrow> [] | Some t \<Rightarrow> toLowerCase t)"

text \<open>
  The inner loop over \<^verbatim>\<open>seenTitles.entries()\<close>: the first entry, in insertion order,
  whose similarity reaches the threshold, with that similarity.
\<close>

fun first_similar ::
  "(jstring \<Rightarrow> jstring) \<Rightarrow> real \<Rightarrow> jstring \<Rightarrow> (jstring, item) js_map \<Rightarrow> (item \<times> real) option" where
  "first_similar toLowerCase threshold t [] = None"
| "first_similar toLowerCase threshold t ((seenTitle, seenResult) # rest) =
     (if calculateTextSimilarity toLowerCase t seenTitle \<ge> threshold
      then Some (seenResult, calculateTextSimilarity toLowerCase t seenTitle)
      else first_similar toLowerCase threshold t rest)"

definition dedup_step :: "(jstring \<Rightarrow> jstring) \<Rightarrow> real \<Rightarrow> dedup_state \<Rightarrow> item \<Rightarrow> dedup_state" where
  "dedup_step toLowerCase threshold st result =
     (case first_similar toLowerCase threshold (title_key toLowerCase result) (seenTitles st) of
        Some (seenResult, sim) \<Rightarrow>
          st \<lparr> duplicates := duplicates st @
                 [\<lparr> dup_item = result, duplicateOf = item_id seenResult, similarity = sim \<rparr>] \<rparr>
      | None \<Rightarrow>
          st \<lparr> deduplicated := deduplicated st @ [result],
               seenTitles := map_set (title_key toLowerCase result) result (seenTitles st) \<rparr>)"

fun dedup_loop :: "(jstring \<Rightarrow> jstring) \<Rightarrow> real \<Rightarrow> item list \<Rightarrow> dedup_state \<Rightarrow> dedup_state" where
  "dedup_loop toLowerCase threshold [] st = st"
| "dedup_loop toLowerCase threshold (result # results) st =
     dedup_loop toLowerCase threshold results (dedup_step toLowerCase threshold st result)"

definition dedup_init :: dedup_state where
  "dedup_init = \<lparr> deduplicated = [], duplicates = [], seenTitles = [] \<rparr>"

record dedup_body =
  db_results :: "item list option"
  db_threshold :: "real option"

record dedup_stats =
  originalCount :: nat
  deduplicatedCount :: nat
  duplicatesRemoved :: nat

record dedup_response =
  dr_original :: "item list"
  dr_deduplicated :: "item list"
  dr_duplicates :: "duplicate list"
  dr_stats :: dedup_stats

text \<open>
  \<^verbatim>\<open>POST /api/search/deduplicate\<close>: a body without a \<^verbatim>\<open>results\<close> array is answered
  with 400; the threshold defaults to 0.85.
\<close>

definition deduplicate_handler ::
  "(jstring \<Rightarrow> jstring) \<Rightarrow> dedup_body \<Rightarrow> dedup_response http_response" where
  "deduplicate_handler toLowerCase body =
     (case db_results body of
        None \<Rightarrow> ErrorJson 400 ''Results array is required''
      | Some results \<Rightarrow>
          (let threshold = or_default (db_threshold body) 0.85;
               st = dedup_loop toLowerCase threshold results dedup_init
           in OkJson \<lparr> dr_original = results,
                        dr_deduplicated = deduplicated st,
                        dr_duplicates = duplicates st,
                        dr_stats = \<lparr> originalCount = length results,
                                     deduplicatedCount = length (deduplicated st),
                                     duplicatesRemoved = length (duplicates st) \<rparr> \<rparr>))"

subsection \<open>The contract of the deduplicator\<close>

text \<open>
  The contract in the words of the specification, for a given similarity of two items:
  walk the input in order; compare each item with the items kept so far; the first
  kept item whose similarity reaches the threshold makes the item a removed one,
  recorded with that kept item's id.
\<close>

fun first_colliding :: "(item \<Rightarrow> item \<Rightarrow> real) \<Rightarrow> real \<Rightarrow> item \<Rightarrow> item list \<Rightarrow> item option" where
  "first_colliding sim threshold x [] = None"
| "first_colliding sim threshold x (k # kept) =
     (if sim x k \<ge> threshold then Some k else first_colliding sim threshold x kept)"

fun dedup_spec :: "(item \<Rightarrow> item \<Rightarrow> real) \<Rightarrow> real \<Rightarrow> item list \<Rightarrow> item list
                     \<Rightarrow> (item \<times> string option) list
                     \<Rightarrow> item list \<times> (item \<times> string option) list" where
  "dedup_spec sim threshold [] kept removed = (kept, removed)"
| "dedup_spec sim threshold (x # xs) kept removed =
     (case first_colliding sim threshold x kept of
        Some k \<Rightarrow> dedup_spec sim threshold xs kept (removed @ [(x, item_id k)])
      | None \<Rightarrow> dedup_spec sim threshold xs (kept @ [x]) removed)"

section \<open>Summarisation\<close>

text \<open>
  \<^verbatim>\<open>POST /api/search/summarize\<close>. The completion service either throws, answers with
  a body that lacks \<^verbatim>\<open>transaction.response\<close>, or answers with a summary text. The
  assembly of the prompt reads text fields of the items and decides nothing about the
  answer; it is left out.
\<close>

datatype completion_outcome =
    CompletionError string
  | CompletionMalformed
  | CompletionReply string

record summarize_body =
  sb_results :: "item list option"
  sb_summaryType :: "string option"

record summarize_env =
  config_present :: bool
  completion :: completion_outcome

record summarize_result =
  summary :: string
  sr_summaryType :: "string option"

definition summarize_handler :: "summarize_env \<Rightarrow> summarize_body \<Rightarrow> summarize_result http_response" where
  "summarize_handler env body =
     (case sb_results body of
        None \<Rightarrow> ErrorJson 400 ''Results array is required''
      | Some results \<Rightarrow>
          if results = [] then OkJson \<lparr> summary = ''No results to summarize'', sr_summaryType = None \<rparr>
          else if \<not> config_present env then ErrorJson 500 ''Failed to summarize results''
          else
            (case completion env of
               CompletionError msg \<Rightarrow> ErrorJson 500 ''Failed to summarize results''
             | CompletionMalformed \<Rightarrow> ErrorJson 500 ''Failed to summarize results''
             | CompletionReply text \<Rightarrow>
                 OkJson \<lparr> summary = text,
                          sr_summaryType = Some (or_default (sb_summaryType body) ''detailed'') \<rparr>))"

subsection \<open>The summarise step of the client workflow\<close>

text \<open>
  \<^verbatim>\<open>handleLlmRagTest\<close> posts the top five results to the summarise endpoint and throws
  when the answer is not ok (a status outside 200..299); its \<^verbatim>\<open>catch\<close> block turns
  any thrown error into the workflow result \<^verbatim>\<open>{error: true, message}\<close>.
\<close>

datatype workflow_error =
    SearchFailed nat
  | NoSearchResults
  | SummarizationFailed nat

definition response_ok :: "nat \<Rightarrow> bool" where
  "response_ok status = (200 \<le> status \<and> status \<le> 299)"

definition summarize_stage ::
  "summarize_env \<Rightarrow> item list \<Rightarrow> workflow_error + summarize_result" where
  "summarize_stage env topResults =
     (let summarizeResponse =
            summarize_handler env
              \<lparr> sb_results = Some (take 5 topResults), sb_summaryType = Some ''detailed'' \<rparr>
      in case summarizeResponse of
           ErrorJson code msg \<Rightarrow>
             if response_ok code then Inr \<lparr> summary = [], sr_summaryType = None \<rparr>
             else Inl (SummarizationFailed code)
         | OkJson summaryData \<Rightarrow> Inr summaryData)"

section \<open>Notions of the specification\<close>

text \<open>Both normalised scores of an entry lie in the unit interval.\<close>

definition unit_scores :: "entry \<Rightarrow> bool" where
  "unit_scores e = (0 \<le> bm25Normalized e \<and> bm25Normalized e \<le> 1
                    \<and> 0 \<le> vectorNormalized e \<and> vectorNormalized e \<le> 1)"

text \<open>
  Reciprocal rank fusion in the words of the specification: the rank of an id in a
  candidate list is its position, counted from 1; a source contributes 1 / (60 + rank),
  and nothing for an id it does not list.
\<close>

fun rank_from :: "nat \<Rightarrow> candidate list \<Rightarrow> string \<Rightarrow> nat option" where
  "rank_from i [] k = None"
| "rank_from i (d # ds) k = (if cand_id d = k then Some (i + 1) else rank_from (Suc i) ds k)"

definition rank_in :: "candidate list \<Rightarrow> string \<Rightarrow> nat option" where
  "rank_in results k = rank_from 0 results k"

definition rrf_contribution :: "nat option \<Rightarrow> real" where
  "rrf_contribution r = (case r of None \<Rightarrow> 0 | Some n \<Rightarrow> 1 / (60 + real n))"

text \<open>
  The ordering in the words of the specification: descending fused score; among equal
  fused scores the lower original rank in the source where the item appeared first
  (the lexical rank if it has one, else the vector rank); then the id in lexicographic
  order.
\<close>

definition original_rank :: "entry \<Rightarrow> nat" where
  "original_rank e =
     (case bm25Rank e of Some r \<Rightarrow> r | None \<Rightarrow> (case vectorRank e of Some r \<Rightarrow> r | None \<Rightarrow> 0))"

definition tie_break_order :: "fused \<Rightarrow> fused \<Rightarrow> bool" where
  "tie_break_order a b =
     (fusedScore b < fusedScore a
      \<or> (fusedScore a = fusedScore b
          \<and> (original_rank (fdoc a) < original_rank (fdoc b)
              \<or> (original_rank (fdoc a) = original_rank (fdoc b)
                  \<and> entry_id (fdoc a) \<le> entry_id (fdoc b)))))"

text \<open>
  The words of a string are its non-empty fields, where the fields are what lies
  between single white space characters. The Jaccard similarity of two sets is the
  size of their intersection over the size of their union.
\<close>

fun ws_fields :: "jstring \<Rightarrow> jstring list" where
  "ws_fields [] = [[]]"
| "ws_fields (c # cs) =
     (if is_space c then [] # ws_fields cs
      else (c # hd (ws_fields cs)) # tl (ws_fields cs))"

definition words :: "jstring \<Rightarrow> jstring list" where
  "words s = filter (\<lambda>w. w \<noteq> []) (ws_fields s)"

definition jaccard :: "'a set \<Rightarrow> 'a set \<Rightarrow> real" where
  "jaccard A B = real (card (A \<inter> B)) / real (card (A \<union> B))"

definition title_text :: "item \<Rightarrow> jstring" where
  "title_text x = (case title x of None \<Rightarrow> [] | Some t \<Rightarrow> t)"

text \<open>The similarity of the claim: Jaccard similarity of the words of the lower-cased titles.\<close>

definition word_similarity :: "(jstring \<Rightarrow> jstring) \<Rightarrow> item \<Rightarrow> item \<Rightarrow> real" where
  "word_similarity toLowerCase x k =
     jaccard (set (words (toLowerCase (title_text x)))) (set (words (toLowerCase (title_text k))))"

text \<open>
  The pieces of a string: its words, and in addition the empty string when the string
  is empty or starts or ends with white space.
\<close>

definition pieces :: "jstring \<Rightarrow> jstring set" where
  "pieces s =
     set (words s) \<union> (if s = [] \<or> is_space (hd s) \<or> is_space (last s) then {[]} else {})"

definition piece_similarity :: "(jstring \<Rightarrow> jstring) \<Rightarrow> item \<Rightarrow> item \<Rightarrow> real" where
  "piece_similarity toLowerCase x k =
     jaccard (pieces (toLowerCase (title_text x))) (pieces (toLowerCase (title_text k)))"



definition summariser_fails :: "summarize_env \<Rightarrow> bool" where
  "summariser_fails env =
     (case completion env of CompletionReply text \<Rightarrow> False | CompletionError msg \<Rightarrow> True
      | CompletionMalformed \<Rightarrow> True)"

subsection \<open>Projections and invariants used in the proofs\<close>

definition ranks :: "entry \<Rightarrow> nat option \<times> nat option" where
  "ranks e = (bm25Rank e, vectorRank e)"

text \<open>
  An entry's normalised scores are the normalisers applied to its raw scores, or 0 for a
  source that did not list the document.
\<close>

definition follows_formula :: "candidate list \<Rightarrow> candidate list \<Rightarrow> entry \<Rightarrow> bool" where
  "follows_formula bs vs e =
     ((case bm25Rank e of
         None \<Rightarrow> bm25Score e = 0 \<and> bm25Normalized e = 0
       | Some r \<Rightarrow> bm25Normalized e = normalizeBM25 (bm25Score e) (minBM25 bs) (maxBM25 bs))
      \<and> (case vectorRank e of
            None \<Rightarrow> vectorScore e = 0 \<and> vectorNormalized e = 0
          | Some r \<Rightarrow>
              vectorNormalized e = normalizeVector (vectorScore e) (minVector vs) (maxVector vs)))"

definition removed_record :: "duplicate \<Rightarrow> item \<times> string option" where
  "removed_record d = (dup_item d, duplicateOf d)"

definition code_similarity :: "(jstring \<Rightarrow> jstring) \<Rightarrow> item \<Rightarrow> item \<Rightarrow> real" where
  "code_similarity toLowerCase x k =
     calculateTextSimilarity toLowerCase (title_key toLowerCase x) (title_key toLowerCase k)"

text \<open>While the threshold is at most 1, the Map of seen titles lists the kept items.\<close>

definition seen_is_kept :: "(jstring \<Rightarrow> jstring) \<Rightarrow> dedup_state \<Rightarrow> bool" where
  "seen_is_kept toLowerCase st =
     (seenTitles st = map (\<lambda>r. (title_key toLowerCase r, r)) (deduplicated st))"

section \<open>Concrete requests, candidate lists and backends\<close>

definition example_bm25 :: "candidate list" where
  "example_bm25 = [\<lparr>cand_id = ''a'', cand_score = 2\<rparr>, \<lparr>cand_id = ''b'', cand_score = 1 / 2\<rparr>]"

definition example_vector :: "candidate list" where
  "example_vector = [\<lparr>cand_id = ''c'', cand_score = 9 / 10\<rparr>, \<lparr>cand_id = ''a'', cand_score = 4 / 5\<rparr>]"

definition example_params :: rerank_params where
  "example_params =
     \<lparr> rp_limit = 1, rp_fusionMethod = ''rrf'', rp_rerankTopK = 50,
       rp_bm25Weight = 4 / 10, rp_vectorWeight = 6 / 10 \<rparr>"

text \<open>A single raw score: the maximum and the minimum of its list.\<close>

definition lone_candidate :: "candidate list" where
  "lone_candidate = [\<lparr>cand_id = ''a'', cand_score = 1 / 2\<rparr>]"

text \<open>A lexical and a vector hit with equal fused score and equal rank.\<close>

definition tie_bm25 :: "candidate list" where
  "tie_bm25 = [\<lparr>cand_id = ''b'', cand_score = 1\<rparr>]"

definition tie_vector :: "candidate list" where
  "tie_vector = [\<lparr>cand_id = ''a'', cand_score = 1\<rparr>]"

text \<open>
  With the weights 0.5 and 0.5, the second lexical hit and the first vector hit have
  the same weighted score 0.25.
\<close>

definition rank_tie_bm25 :: "candidate list" where
  "rank_tie_bm25 = [\<lparr>cand_id = ''p'', cand_score = 2\<rparr>, \<lparr>cand_id = ''q'', cand_score = 1\<rparr>]"

definition rank_tie_vector :: "candidate list" where
  "rank_tie_vector = [\<lparr>cand_id = ''r'', cand_score = 1 / 2\<rparr>]"

definition query_only :: "string \<Rightarrow> request_body" where
  "query_only q =
     \<lparr> rq_query = Some q, rq_limit = None, rq_fusionMethod = None, rq_rerankTopK = None,
       rq_bm25Weight = None, rq_vectorWeight = None \<rparr>"





definition summariser_down :: summarize_env where
  "summariser_down = \<lparr> config_present = True, completion = CompletionError ''timeout of 30000ms exceeded'' \<rparr>"

definition example_items :: "item list" where
  "example_items =
     [\<lparr> title = Some (js ''Patient Consent Verification''), item_id = Some ''TC_0001'' \<rparr>,
      \<lparr> title = Some (js ''Lab Report Delivery''), item_id = Some ''TC_0002'' \<rparr>,
      \<lparr> title = Some (js ''patient  consent   verification''), item_id = Some ''TC_0003'' \<rparr>]"

text \<open>
  Lower-casing of the letters A to Z, which is what the platform's function does on an
  ASCII string.
\<close>

definition ascii_toLowerCase :: "jstring \<Rightarrow> jstring" where
  "ascii_toLowerCase s = map (\<lambda>c. if 65 \<le> c \<and> c \<le> 90 then c + 32 else c) s"

text \<open>
  Five items: the fourth has the title of the second in another case and with runs of
  spaces, and the fifth has no title.
\<close>

definition scenario_items :: "item list" where
  "scenario_items =
     [\<lparr> title = Some (js ''Login with OTP''), item_id = Some ''TC_1'' \<rparr>,
      \<lparr> title = Some (js ''Patient Consent Verification''), item_id = Some ''TC_2'' \<rparr>,
      \<lparr> title = Some (js ''Lab Report Delivery''), item_id = Some ''TC_3'' \<rparr>,
      \<lparr> title = Some (js ''patient  consent   VERIFICATION''), item_id = Some ''TC_4'' \<rparr>,
      \<lparr> title = None, item_id = Some ''TC_5'' \<rparr>]"

text \<open>Two titles with the same words, the second with a space at its end.\<close>

definition trailing_space_items :: "item list" where
  "trailing_space_items =
     [\<lparr> title = Some (js ''Login OTP''), item_id = Some ''TC_1'' \<rparr>,
      \<lparr> title = Some (js ''Login OTP ''), item_id = Some ''TC_2'' \<rparr>]"

text \<open>Two items without a title.\<close>

definition untitled_items :: "item list" where
  "untitled_items =
     [\<lparr> title = None, item_id = Some ''TC_1'' \<rparr>, \<lparr> title = None, item_id = Some ''TC_2'' \<rparr>]"

section \<open>Properties of the fusion\<close>

lemma length_map_set: "length (map_set k v m) \<le> Suc (length m)"
  by (induction m) auto

lemma length_process_bm25: "length (process_bm25 lo hi i docs m) \<le> length m + length docs"
proof (induction docs arbitrary: i m)
  case Nil
  show ?case by simp
next
  case (Cons d ds)
  have "length (process_bm25 lo hi (Suc i) ds (map_set (cand_id d) (bm25_entry lo hi d i) m))
          \<le> length (map_set (cand_id d) (bm25_entry lo hi d i) m) + length ds"
    by (rule Cons.IH)
  also have "\<dots> \<le> Suc (length m) + length ds"
    using length_map_set [of "cand_id d" "bm25_entry lo hi d i" m] by simp
  finally show ?case by simp
qed

lemma length_vector_step: "length (vector_step lo hi d i m) \<le> Suc (length m)"
  unfolding vector_step_def
  using length_map_set [of "cand_id d" _ m]
  by (auto split: option.splits intro: le_SucI)

lemma length_process_vector: "length (process_vector lo hi i docs m) \<le> length m + length docs"
proof (induction docs arbitrary: i m)
  case Nil
  show ?case by simp
next
  case (Cons d ds)
  have "length (process_vector lo hi (Suc i) ds (vector_step lo hi d i m))
          \<le> length (vector_step lo hi d i m) + length ds"
    by (rule Cons.IH)
  also have "\<dots> \<le> Suc (length m) + length ds"
    using length_vector_step [of lo hi d i m] by simp
  finally show ?case by simp
qed

lemma length_allResults:
  "length (allResults bm25Results vectorResults) \<le> length bm25Results + length vectorResults"
proof -
  let ?mb = "process_bm25 (minBM25 bm25Results) (maxBM25 bm25Results) 0 bm25Results []"
  have "length ?mb \<le> length bm25Results"
    using length_process_bm25 [of _ _ 0 bm25Results "[]"] by simp
  moreover have "length (resultMap bm25Results vectorResults) \<le> length ?mb + length vectorResults"
    unfolding resultMap_def by (rule length_process_vector)
  ultimately show ?thesis
    by (simp add: allResults_def map_values_def)
qed

lemma length_fuse: "length (fuse fm wb wv docs) \<le> length docs"
  by (simp add: fuse_def)

lemma length_fusedResults:
  "length (fusedResults fm wb wv bs vs) \<le> length bs + length vs"
proof -
  have "length (fusedResults fm wb wv bs vs) = length (fuse fm wb wv (allResults bs vs))"
    by (simp add: fusedResults_def sort_by_fused_def)
  also have "\<dots> \<le> length (allResults bs vs)" by (rule length_fuse)
  also have "\<dots> \<le> length bs + length vs" by (rule length_allResults)
  finally show ?thesis .
qed

lemma length_add_ranks: "length (add_ranks i fs) = length fs"
  by (induction fs arbitrary: i) (simp_all add: Let_def)

lemma slice0_nonneg: "0 \<le> e \<Longrightarrow> slice0 xs e = take (nat e) xs"
  by (simp add: slice0_def Let_def min_def)

lemma length_slice0: "length (slice0 xs e) \<le> length xs"
  by (simp add: slice0_def Let_def)

text \<open>
  C8. Whatever the fusion method, the fused list is no longer than the two candidate
  lists together, and so is the returned list; for a limit that is not negative the
  returned list is the first \<open>limit\<close> fused candidates, hence has at most \<open>limit\<close>
  elements.
\<close>

theorem fused_bounded_and_truncated:
  "rr_totalCandidates (rerank_fusion p bm25Results vectorResults)
      = length (fusedResults (rp_fusionMethod p) (rp_bm25Weight p) (rp_vectorWeight p)
                  bm25Results vectorResults)
   \<and> length (fusedResults (rp_fusionMethod p) (rp_bm25Weight p) (rp_vectorWeight p)
                bm25Results vectorResults)
         \<le> length bm25Results + length vectorResults
   \<and> length (rr_results (rerank_fusion p bm25Results vectorResults))
         \<le> length bm25Results + length vectorResults
   \<and> (0 \<le> rp_limit p \<longrightarrow>
         rr_results (rerank_fusion p bm25Results vectorResults)
           = take (nat (rp_limit p))
               (add_ranks 0 (fusedResults (rp_fusionMethod p) (rp_bm25Weight p) (rp_vectorWeight p)
                               bm25Results vectorResults))
         \<and> int (length (rr_results (rerank_fusion p bm25Results vectorResults))) \<le> rp_limit p)"
proof -
  let ?fs = "fusedResults (rp_fusionMethod p) (rp_bm25Weight p) (rp_vectorWeight p)
               bm25Results vectorResults"
  have res: "rr_results (rerank_fusion p bm25Results vectorResults)
               = slice0 (add_ranks 0 ?fs) (rp_limit p)"
    by (simp add: rerank_fusion_def Let_def)
  have tot: "rr_totalCandidates (rerank_fusion p bm25Results vectorResults) = length ?fs"
    by (simp add: rerank_fusion_def Let_def length_add_ranks)
  have bound: "length ?fs \<le> length bm25Results + length vectorResults"
    by (rule length_fusedResults)
  have "length (slice0 (add_ranks 0 ?fs) (rp_limit p)) \<le> length (add_ranks 0 ?fs)"
    by (rule length_slice0)
  then have cut: "length (rr_results (rerank_fusion p bm25Results vectorResults))
                    \<le> length bm25Results + length vectorResults"
    using bound by (simp add: res length_add_ranks)
  have lim: "0 \<le> rp_limit p \<longrightarrow>
         rr_results (rerank_fusion p bm25Results vectorResults) = take (nat (rp_limit p)) (add_ranks 0 ?fs)
         \<and> int (length (rr_results (rerank_fusion p bm25Results vectorResults))) \<le> rp_limit p"
    by (auto simp: res slice0_nonneg)
  from tot bound cut lim show ?thesis by blast
qed

theorem fused_bounded_and_truncated_witness:
  "0 \<le> rp_limit example_params
   \<and> int (length (rr_results (rerank_fusion example_params example_bm25 example_vector)))
       \<le> rp_limit example_params
   \<and> rr_results (rerank_fusion example_params example_bm25 example_vector)
       = take 1 (add_ranks 0 (fusedResults ''rrf'' (4 / 10) (6 / 10) example_bm25 example_vector))"
  using fused_bounded_and_truncated [of example_params example_bm25 example_vector]
  by (simp add: example_params_def)

section \<open>Defaults of the retrieval endpoints\<close>

text \<open>
  C9, as stated, does not hold: with every optional parameter omitted the vector search
  endpoint applies the limit 5, and the hybrid endpoint the weights 0.5 and 0.5.
\<close>

theorem defaults_counterexample:
  "sp_limit (search_defaults (query_only ''patient consent'')) \<noteq> 10
   \<and> hp_bm25Weight (hybrid_defaults (query_only ''patient consent'')) \<noteq> 4 / 10
   \<and> hp_vectorWeight (hybrid_defaults (query_only ''patient consent'')) \<noteq> 6 / 10"
  by (simp add: search_defaults_def hybrid_defaults_def query_only_def or_default_def)

text \<open>
  C9, amended. For a request that omits the optional parameters the rerank endpoint
  applies limit 10, method rrf, rerankTopK 50 and the weights 0.4 and 0.6; the hybrid
  endpoint limit 10 and the weights 0.5 and 0.5; the lexical endpoint limit 10; the
  vector search endpoint limit 5.
\<close>

theorem endpoint_defaults:
  "rerank_defaults (body \<lparr> rq_limit := None, rq_fusionMethod := None, rq_rerankTopK := None,
                           rq_bm25Weight := None, rq_vectorWeight := None \<rparr>)
     = \<lparr> rp_limit = 10, rp_fusionMethod = ''rrf'', rp_rerankTopK = 50,
         rp_bm25Weight = 4 / 10, rp_vectorWeight = 6 / 10 \<rparr>
   \<and> hybrid_defaults (body \<lparr> rq_limit := None, rq_bm25Weight := None, rq_vectorWeight := None \<rparr>)
     = \<lparr> hp_limit = 10, hp_bm25Weight = 5 / 10, hp_vectorWeight = 5 / 10 \<rparr>
   \<and> bm25_defaults (body \<lparr> rq_limit := None \<rparr>) = \<lparr> sp_limit = 10 \<rparr>
   \<and> search_defaults (body \<lparr> rq_limit := None \<rparr>) = \<lparr> sp_limit = 5 \<rparr>"
  by (simp add: rerank_defaults_def hybrid_defaults_def bm25_defaults_def search_defaults_def
        or_default_def)

section \<open>Argument checks of the rerank handler\<close>







section \<open>The embedding call\<close>













section \<open>Failure of the summariser\<close>

text \<open>
  C5, as stated, does not hold: when the completion call fails, the summarise endpoint
  answers 500, and the client workflow stops with an error instead of a result.
\<close>

theorem summariser_failure_counterexample:
  "http_status (summarize_handler summariser_down
       \<lparr> sb_results = Some example_items, sb_summaryType = Some ''detailed'' \<rparr>) = 500
   \<and> summarize_stage summariser_down example_items = Inl (SummarizationFailed 500)"
  by (simp add: summarize_handler_def summarize_stage_def summariser_down_def example_items_def
        http_status_def response_ok_def Let_def)

text \<open>
  C5, amended. When the summariser call fails on a non-empty list of results, the
  summarise endpoint answers 500 with an error body, and the summarise step of the
  client workflow throws: the workflow ends with the error, not with the retrieval
  results.
\<close>

theorem summariser_failure_aborts:
  assumes "summariser_fails env" and "results \<noteq> []"
  shows "summarize_handler env \<lparr> sb_results = Some results, sb_summaryType = ty \<rparr>
           = ErrorJson 500 ''Failed to summarize results''
         \<and> summarize_stage env results = Inl (SummarizationFailed 500)"
proof -
  have h: "\<And>rs ty. rs \<noteq> [] \<Longrightarrow>
             summarize_handler env \<lparr> sb_results = Some rs, sb_summaryType = ty \<rparr>
               = ErrorJson 500 ''Failed to summarize results''"
    using assms(1)
    by (cases "completion env") (simp_all add: summarize_handler_def summariser_fails_def)
  have "take 5 results \<noteq> []" using assms(2) by (cases results) simp_all
  then have "summarize_handler env \<lparr> sb_results = Some (take 5 results), sb_summaryType = Some ''detailed'' \<rparr>
               = ErrorJson 500 ''Failed to summarize results''"
    by (rule h)
  then have "summarize_stage env results = Inl (SummarizationFailed 500)"
    by (simp add: summarize_stage_def response_ok_def)
  with h [OF assms(2)] show ?thesis by simp
qed

theorem summariser_failure_aborts_witness:
  "summariser_fails summariser_down \<and> example_items \<noteq> []
   \<and> summarize_handler summariser_down \<lparr> sb_results = Some example_items, sb_summaryType = None \<rparr>
       = ErrorJson 500 ''Failed to summarize results''
   \<and> summarize_stage summariser_down example_items = Inl (SummarizationFailed 500)"
proof -
  have a: "summariser_fails summariser_down"
    by (simp add: summariser_fails_def summariser_down_def)
  have b: "example_items \<noteq> []"
    by (simp add: example_items_def)
  from summariser_failure_aborts [OF a b, of None] a b show ?thesis by simp
qed

section \<open>Deduplication partitions its input\<close>

lemma dedup_step_mset:
  "mset (deduplicated (dedup_step toLowerCase t st x))
     + mset (map dup_item (duplicates (dedup_step toLowerCase t st x)))
     = mset (deduplicated st) + mset (map dup_item (duplicates st)) + {#x#}"
  by (simp add: dedup_step_def split: option.splits prod.splits)

lemma dedup_loop_mset:
  "mset (deduplicated (dedup_loop toLowerCase t xs st))
     + mset (map dup_item (duplicates (dedup_loop toLowerCase t xs st)))
     = mset (deduplicated st) + mset (map dup_item (duplicates st)) + mset xs"
proof (induction xs arbitrary: st)
  case Nil
  show ?case by simp
next
  case (Cons x xs)
  show ?case
    using Cons.IH [of "dedup_step toLowerCase t st x"] dedup_step_mset [of toLowerCase t st x]
    by (simp add: ac_simps)
qed

lemma dedup_loop_counts:
  "length (deduplicated (dedup_loop toLowerCase t xs dedup_init))
     + length (duplicates (dedup_loop toLowerCase t xs dedup_init))
     = length xs"
proof -
  have "size (mset (deduplicated (dedup_loop toLowerCase t xs dedup_init))
              + mset (map dup_item (duplicates (dedup_loop toLowerCase t xs dedup_init)))) = size (mset xs)"
    using dedup_loop_mset [of toLowerCase t xs dedup_init] by (simp add: dedup_init_def)
  then show ?thesis by simp
qed

text \<open>
  C10. For every posted array, every threshold and whatever the platform's lower-casing
  of a string is, the response echoes the input under
  \<open>original\<close>; the kept items and the items of the removed records together are the
  input, each occurrence in exactly one of the two lists (as multisets); and the three
  counts are the three lengths, so that the kept and the removed count add up to the
  original count.
\<close>

theorem deduplicate_partitions_input:
  "\<exists>r. deduplicate_handler toLowerCase \<lparr> db_results = Some results, db_threshold = t \<rparr>
         = OkJson r
       \<and> dr_original r = results
       \<and> mset (dr_deduplicated r) + mset (map dup_item (dr_duplicates r)) = mset results
       \<and> originalCount (dr_stats r) = length results
       \<and> deduplicatedCount (dr_stats r) = length (dr_deduplicated r)
       \<and> duplicatesRemoved (dr_stats r) = length (dr_duplicates r)
       \<and> deduplicatedCount (dr_stats r) + duplicatesRemoved (dr_stats r) = originalCount (dr_stats r)"
  using dedup_loop_mset [of toLowerCase "or_default t (85 / 100)" results dedup_init]
        dedup_loop_counts [of toLowerCase "or_default t (85 / 100)" results]
  by (simp add: deduplicate_handler_def Let_def dedup_init_def)

section \<open>Score normalisation\<close>

lemma Math_min_with_le_default: "Math_min_with scores d \<le> d"
  unfolding Math_min_with_def by (induction scores) (auto simp: min_def)

lemma Math_min_with_le_score: "s \<in> set scores \<Longrightarrow> Math_min_with scores d \<le> s"
  unfolding Math_min_with_def by (induction scores) (auto simp: min_def)

lemma Math_max_with_ge_default: "d \<le> Math_max_with scores d"
  unfolding Math_max_with_def by (induction scores) (auto simp: max_def)

lemma Math_max_with_ge_score: "s \<in> set scores \<Longrightarrow> s \<le> Math_max_with scores d"
  unfolding Math_max_with_def by (induction scores) (auto simp: max_def)

lemma Math_min_with_Min: "Math_min_with scores d = Min (insert d (set scores))"
  unfolding Math_min_with_def
  by (induction scores) (simp_all add: insert_commute)

lemma Math_max_with_Max: "Math_max_with scores d = Max (insert d (set scores))"
  unfolding Math_max_with_def
  by (induction scores) (simp_all add: insert_commute)

lemma anchored_unit_interval:
  fixes s lo hi :: real
  assumes "lo \<le> 0" "1 \<le> hi" "lo \<le> s" "s \<le> hi"
  shows "0 \<le> (s - lo) / (hi - lo) \<and> (s - lo) / (hi - lo) \<le> 1
         \<and> ((s - lo) / (hi - lo) = 1 \<longleftrightarrow> s = hi)"
proof -
  have pos: "0 < hi - lo" using assms by linarith
  have a: "0 \<le> (s - lo) / (hi - lo)" using pos assms by simp
  have b: "(s - lo) / (hi - lo) \<le> 1" using pos assms by (simp add: divide_le_eq)
  have c: "(s - lo) / (hi - lo) = 1 \<longleftrightarrow> s = hi" using pos by (simp add: divide_eq_eq)
  from a b c show ?thesis by blast
qed

lemma normalize_in_list:
  assumes "d \<in> set results"
  defines "lo \<equiv> Math_min_with (map cand_score results) 0"
      and "hi \<equiv> Math_max_with (map cand_score results) 1"
  shows "lo \<le> 0 \<and> 1 \<le> hi \<and> lo \<le> cand_score d \<and> cand_score d \<le> hi"
  using assms Math_min_with_le_default [of "map cand_score results" 0]
    Math_max_with_ge_default [of 1 "map cand_score results"]
    Math_min_with_le_score [of "cand_score d" "map cand_score results" 0]
    Math_max_with_ge_score [of "cand_score d" "map cand_score results" 1]
  by simp

lemma normalizeBM25_unit:
  assumes "d \<in> set results"
  shows "0 \<le> normalizeBM25 (cand_score d) (minBM25 results) (maxBM25 results)
         \<and> normalizeBM25 (cand_score d) (minBM25 results) (maxBM25 results) \<le> 1"
proof -
  note b = normalize_in_list [OF assms]
  from b have ne: "maxBM25 results \<noteq> minBM25 results"
    by (simp add: minBM25_def maxBM25_def)
  from b anchored_unit_interval [of "minBM25 results" "maxBM25 results" "cand_score d"]
  show ?thesis
    using ne by (simp add: normalizeBM25_def minBM25_def maxBM25_def)
qed

lemma normalizeVector_unit:
  assumes "d \<in> set results"
  shows "0 \<le> normalizeVector (cand_score d) (minVector results) (maxVector results)
         \<and> normalizeVector (cand_score d) (minVector results) (maxVector results) \<le> 1"
  using normalizeBM25_unit [OF assms]
  by (simp add: normalizeBM25_def normalizeVector_def minBM25_def minVector_def maxBM25_def maxVector_def)

lemma set_map_set: "set (map_set k v m) \<subseteq> insert (k, v) (set m)"
  by (induction m) (auto split: if_splits)

lemma map_set_pred:
  assumes "P k v" and "\<And>k' e. (k', e) \<in> set m \<Longrightarrow> P k' e" and "(k'', e') \<in> set (map_set k v m)"
  shows "P k'' e'"
proof -
  have "(k'', e') = (k, v) \<or> (k'', e') \<in> set m"
    using assms(3) set_map_set [of k v m] by auto
  then show ?thesis
  proof
    assume "(k'', e') = (k, v)"
    then show ?thesis using assms(1) by simp
  next
    assume "(k'', e') \<in> set m"
    then show ?thesis by (rule assms(2))
  qed
qed

lemma map_get_map_set: "map_get k (map_set k' v m) = (if k = k' then Some v else map_get k m)"
  by (induction m) auto

lemma map_get_in_set: "map_get k m = Some v \<Longrightarrow> (k, v) \<in> set m"
  by (induction m) (auto split: if_splits)

lemma map_has_get: "map_has k m \<longleftrightarrow> map_get k m \<noteq> None"
  by (induction m) (auto split: if_splits)

text \<open>
  A property of keys and entries that every new entry has, and that merging a vector
  hit into an entry keeps, holds for every entry of the union.
\<close>

lemma process_bm25_pred:
  assumes "\<And>d i. d \<in> set docs \<Longrightarrow> P (cand_id d) (bm25_entry lo hi d i)"
    and "\<And>k e. (k, e) \<in> set m \<Longrightarrow> P k e"
    and "(k', e') \<in> set (process_bm25 lo hi i docs m)"
  shows "P k' e'"
  using assms
proof (induction docs arbitrary: i m)
  case Nil
  then show ?case by simp
next
  case (Cons d ds)
  have pd: "P (cand_id d) (bm25_entry lo hi d i)" using Cons.prems(1) by simp
  have step: "\<And>k e. (k, e) \<in> set (map_set (cand_id d) (bm25_entry lo hi d i) m) \<Longrightarrow> P k e"
    using pd Cons.prems(2) by (rule map_set_pred)
  have rest: "\<And>d i. d \<in> set ds \<Longrightarrow> P (cand_id d) (bm25_entry lo hi d i)"
    using Cons.prems(1) by simp
  have mem: "(k', e') \<in> set (process_bm25 lo hi (Suc i) ds (map_set (cand_id d) (bm25_entry lo hi d i) m))"
    using Cons.prems(3) by simp
  from rest step mem show ?case by (rule Cons.IH)
qed

lemma vector_step_pred:
  assumes "P (cand_id d) (vector_entry lo hi d i)"
    and "\<And>e. P (cand_id d) e \<Longrightarrow> P (cand_id d) (merge_vector lo hi d i e)"
    and "\<And>k e. (k, e) \<in> set m \<Longrightarrow> P k e"
    and "(k', e') \<in> set (vector_step lo hi d i m)"
  shows "P k' e'"
proof (cases "map_get (cand_id d) m")
  case None
  then have eq: "vector_step lo hi d i m = map_set (cand_id d) (vector_entry lo hi d i) m"
    by (simp add: vector_step_def map_has_get)
  have "(k', e') \<in> set (map_set (cand_id d) (vector_entry lo hi d i) m)"
    using assms(4) by (simp only: eq)
  with assms(1,3) show ?thesis by (rule map_set_pred)
next
  case (Some ex)
  then have "(cand_id d, ex) \<in> set m" by (rule map_get_in_set)
  then have "P (cand_id d) ex" by (rule assms(3))
  then have pm: "P (cand_id d) (merge_vector lo hi d i ex)" by (rule assms(2))
  have eq: "vector_step lo hi d i m = map_set (cand_id d) (merge_vector lo hi d i ex) m"
    using Some by (simp add: vector_step_def map_has_get)
  have "(k', e') \<in> set (map_set (cand_id d) (merge_vector lo hi d i ex) m)"
    using assms(4) by (simp only: eq)
  with pm assms(3) show ?thesis by (rule map_set_pred)
qed

lemma process_vector_pred:
  assumes "\<And>d i. d \<in> set docs \<Longrightarrow> P (cand_id d) (vector_entry lo hi d i)"
    and "\<And>d i e. d \<in> set docs \<Longrightarrow> P (cand_id d) e \<Longrightarrow> P (cand_id d) (merge_vector lo hi d i e)"
    and "\<And>k e. (k, e) \<in> set m \<Longrightarrow> P k e"
    and "(k', e') \<in> set (process_vector lo hi i docs m)"
  shows "P k' e'"
  using assms
proof (induction docs arbitrary: i m)
  case Nil
  then show ?case by simp
next
  case (Cons d ds)
  have pv: "P (cand_id d) (vector_entry lo hi d i)" using Cons.prems(1) by simp
  have pm: "\<And>e. P (cand_id d) e \<Longrightarrow> P (cand_id d) (merge_vector lo hi d i e)"
    using Cons.prems(2) by simp
  have step: "\<And>k e. (k, e) \<in> set (vector_step lo hi d i m) \<Longrightarrow> P k e"
    using pv pm Cons.prems(3) by (rule vector_step_pred)
  have r1: "\<And>d i. d \<in> set ds \<Longrightarrow> P (cand_id d) (vector_entry lo hi d i)"
    using Cons.prems(1) by simp
  have r2: "\<And>d i e. d \<in> set ds \<Longrightarrow> P (cand_id d) e \<Longrightarrow> P (cand_id d) (merge_vector lo hi d i e)"
    using Cons.prems(2) by simp
  have mem: "(k', e') \<in> set (process_vector lo hi (Suc i) ds (vector_step lo hi d i m))"
    using Cons.prems(4) by simp
  from r1 r2 step mem show ?case by (rule Cons.IH)
qed

lemma resultMap_pred:
  assumes "\<And>d i. d \<in> set bs \<Longrightarrow> P (cand_id d) (bm25_entry (minBM25 bs) (maxBM25 bs) d i)"
    and "\<And>d i. d \<in> set vs \<Longrightarrow> P (cand_id d) (vector_entry (minVector vs) (maxVector vs) d i)"
    and "\<And>d i e. d \<in> set vs \<Longrightarrow> P (cand_id d) e
           \<Longrightarrow> P (cand_id d) (merge_vector (minVector vs) (maxVector vs) d i e)"
    and "(k, e) \<in> set (resultMap bs vs)"
  shows "P k e"
proof -
  have b: "\<And>k e. (k, e) \<in> set (process_bm25 (minBM25 bs) (maxBM25 bs) 0 bs []) \<Longrightarrow> P k e"
  proof -
    fix k e assume mem: "(k, e) \<in> set (process_bm25 (minBM25 bs) (maxBM25 bs) 0 bs [])"
    show "P k e"
    proof (rule process_bm25_pred [OF _ _ mem])
      show "\<And>d i. d \<in> set bs \<Longrightarrow> P (cand_id d) (bm25_entry (minBM25 bs) (maxBM25 bs) d i)"
        by (rule assms(1))
      show "\<And>k e. (k, e) \<in> set [] \<Longrightarrow> P k e" by simp
    qed
  qed
  from assms(2,3) b assms(4) [unfolded resultMap_def] show ?thesis
    by (rule process_vector_pred)
qed

lemma unit_bm25_entry:
  "d \<in> set bs \<Longrightarrow> unit_scores (bm25_entry (minBM25 bs) (maxBM25 bs) d i)"
  using normalizeBM25_unit [of d bs] by (simp add: unit_scores_def bm25_entry_def)

lemma unit_vector_entry:
  "d \<in> set vs \<Longrightarrow> unit_scores (vector_entry (minVector vs) (maxVector vs) d i)"
  using normalizeVector_unit [of d vs] by (simp add: unit_scores_def vector_entry_def)

lemma unit_merge_vector:
  "d \<in> set vs \<Longrightarrow> unit_scores e \<Longrightarrow> unit_scores (merge_vector (minVector vs) (maxVector vs) d i e)"
  using normalizeVector_unit [of d vs] by (simp add: unit_scores_def merge_vector_def)

lemma allResults_unit_scores:
  assumes "e \<in> set (allResults bs vs)"
  shows "unit_scores e"
proof -
  from assms obtain k where "(k, e) \<in> set (resultMap bs vs)"
    by (auto simp: allResults_def map_values_def)
  with unit_bm25_entry unit_vector_entry unit_merge_vector show ?thesis
    by (rule resultMap_pred [where P = "\<lambda>k. unit_scores"])
qed


lemma hybrid_bm25_entry_normalized:
  "bm25ScoreNormalized (hybrid_bm25_entry results w d) = hybrid_normalized results (cand_score d)"
  by (simp add: hybrid_bm25_entry_def hybrid_normalized_def bm25Min_def bm25Max_def Let_def)

lemma hybrid_vector_only_normalized:
  "\<not> map_has (cand_id d) m \<Longrightarrow>
     map_option vectorScoreNormalized (map_get (cand_id d) (hybrid_vector_step results w d m))
       = Some (hybrid_normalized results (cand_score d))"
  by (simp add: hybrid_vector_step_def hybrid_normalized_def vectorMin_def vectorMax_def Let_def
        map_get_map_set)

text \<open>
  What the entries of the union hold: a normalised score is the normaliser applied to
  the entry's own raw score and the bounds of its list, or 0 when the source did not
  list the document.
\<close>

lemma formula_bm25_entry:
  "follows_formula bs vs (bm25_entry (minBM25 bs) (maxBM25 bs) d i)"
  by (simp add: follows_formula_def bm25_entry_def)

lemma formula_vector_entry:
  "follows_formula bs vs (vector_entry (minVector vs) (maxVector vs) d i)"
  by (simp add: follows_formula_def vector_entry_def)

lemma formula_merge_vector:
  "follows_formula bs vs e \<Longrightarrow> follows_formula bs vs (merge_vector (minVector vs) (maxVector vs) d i e)"
  by (simp add: follows_formula_def merge_vector_def split: option.splits)

lemma allResults_follow_formula:
  assumes "e \<in> set (allResults bs vs)"
  shows "follows_formula bs vs e"
proof -
  from assms obtain k where "(k, e) \<in> set (resultMap bs vs)"
    by (auto simp: allResults_def map_values_def)
  with formula_bm25_entry formula_vector_entry formula_merge_vector show ?thesis
    by (rule resultMap_pred [where P = "\<lambda>k. follows_formula bs vs"])
qed

text \<open>
  The bounds of a list are the least of its scores and 0, and the greatest of its
  scores and 1; they never coincide, so the branch of the normalisers for equal bounds
  is never taken. A normalised score lies in the unit interval, and it is 1 only for a
  raw score that is the upper bound.
\<close>

lemma normalisation_bounds:
  assumes "d \<in> set results"
  shows "minBM25 results = Min (insert 0 (cand_score ` set results))
     \<and> maxBM25 results = Max (insert 1 (cand_score ` set results))
     \<and> minBM25 results < maxBM25 results
     \<and> normalizeBM25 (cand_score d) (minBM25 results) (maxBM25 results)
         = (cand_score d - minBM25 results) / (maxBM25 results - minBM25 results)
     \<and> normalizeVector (cand_score d) (minVector results) (maxVector results)
         = normalizeBM25 (cand_score d) (minBM25 results) (maxBM25 results)
     \<and> hybrid_normalized results (cand_score d)
         = normalizeBM25 (cand_score d) (minBM25 results) (maxBM25 results)
     \<and> 0 \<le> normalizeBM25 (cand_score d) (minBM25 results) (maxBM25 results)
     \<and> normalizeBM25 (cand_score d) (minBM25 results) (maxBM25 results) \<le> 1
     \<and> (normalizeBM25 (cand_score d) (minBM25 results) (maxBM25 results) = 1
          \<longleftrightarrow> cand_score d = maxBM25 results)"
proof -
  let ?lo = "minBM25 results" and ?hi = "maxBM25 results"
  note b = normalize_in_list [OF assms]
  have lo: "?lo \<le> 0" and hi: "1 \<le> ?hi" and ls: "?lo \<le> cand_score d" and sh: "cand_score d \<le> ?hi"
    using b by (simp_all add: minBM25_def maxBM25_def)
  have lt: "?lo < ?hi" using lo hi by linarith
  have c1: "?lo = Min (insert 0 (cand_score ` set results))"
    by (simp add: minBM25_def Math_min_with_Min)
  have c2: "?hi = Max (insert 1 (cand_score ` set results))"
    by (simp add: maxBM25_def Math_max_with_Max)
  have c4: "normalizeBM25 (cand_score d) ?lo ?hi = (cand_score d - ?lo) / (?hi - ?lo)"
    using lt by (simp add: normalizeBM25_def)
  have c5: "normalizeVector (cand_score d) (minVector results) (maxVector results)
              = normalizeBM25 (cand_score d) ?lo ?hi"
    by (simp add: normalizeBM25_def normalizeVector_def minBM25_def minVector_def
          maxBM25_def maxVector_def)
  have c6: "hybrid_normalized results (cand_score d) = normalizeBM25 (cand_score d) ?lo ?hi"
    using lt by (simp add: hybrid_normalized_def score_range_def normalizeBM25_def
                   minBM25_def maxBM25_def)
  note u = anchored_unit_interval [OF lo hi ls sh]
  have c7: "0 \<le> normalizeBM25 (cand_score d) ?lo ?hi" using u by (simp add: c4)
  have c8: "normalizeBM25 (cand_score d) ?lo ?hi \<le> 1" using u by (simp add: c4)
  have c9: "normalizeBM25 (cand_score d) ?lo ?hi = 1 \<longleftrightarrow> cand_score d = ?hi"
    using u by (simp add: c4)
  from c1 c2 lt c4 c5 c6 c7 c8 c9 show ?thesis by blast
qed

lemma equal_bounds_branch_dead:
  "minBM25 results \<noteq> maxBM25 results \<and> minVector results \<noteq> maxVector results"
proof -
  have "minBM25 results \<le> 0" and "1 \<le> maxBM25 results"
    using Math_min_with_le_default [of "map cand_score results" 0]
      Math_max_with_ge_default [of 1 "map cand_score results"]
    by (simp_all add: minBM25_def maxBM25_def)
  then show ?thesis by (simp add: minBM25_def minVector_def maxBM25_def maxVector_def)
qed

lemmas normalise_eval = allResults_def resultMap_def map_values_def vector_step_def
  bm25_entry_def vector_entry_def merge_vector_def normalizeBM25_def normalizeVector_def
  minBM25_def maxBM25_def minVector_def maxVector_def Math_min_with_def Math_max_with_def
  hybrid_resultMap_def hybrid_bm25_entry_def hybrid_vector_step_def bm25Min_def bm25Max_def
  vectorMin_def vectorMax_def score_range_def Let_def

text \<open>
  C2. The claim asks for min-max normalisation over a list's own scores, with 1.0 for
  every entry of a list whose maximum equals its minimum and 1.0 for the top entry of
  every non-empty list. The handlers do not compute that: the bounds take 0 and 1 as
  extra arguments. For the list of the single raw score 0.5 the entry stored by the
  rerank handler (lexical and vector side) and by the hybrid handler (lexical and
  vector side) has the normalised score 0.5; and for the lexical list 2, 0.5 and the
  vector list 0.9, 0.8 the stored normalised scores are 1, 0.25 and 0.9, 0.8, so the
  top vector entry has 0.9.
\<close>

theorem normalisation_misses_top_score:
  "map bm25Normalized (allResults lone_candidate []) = [1 / 2]
   \<and> map vectorNormalized (allResults [] lone_candidate) = [1 / 2]
   \<and> map bm25ScoreNormalized (map_values (hybrid_resultMap (1 / 2) (1 / 2) lone_candidate []))
       = [1 / 2]
   \<and> map vectorScoreNormalized (map_values (hybrid_resultMap (1 / 2) (1 / 2) [] lone_candidate))
       = [1 / 2]
   \<and> map (\<lambda>e. (entry_id e, bm25Normalized e, vectorNormalized e))
         (allResults example_bm25 example_vector)
       = [(''a'', 1, 4 / 5), (''b'', 1 / 4, 0), (''c'', 0, 9 / 10)]"
proof -
  have a: "map bm25Normalized (allResults lone_candidate []) = [1 / 2]"
    by (simp add: normalise_eval lone_candidate_def)
  have b: "map vectorNormalized (allResults [] lone_candidate) = [1 / 2]"
    by (simp add: normalise_eval lone_candidate_def)
  have c: "map bm25ScoreNormalized (map_values (hybrid_resultMap (1 / 2) (1 / 2) lone_candidate []))
             = [1 / 2]"
    by (simp add: normalise_eval lone_candidate_def)
  have d: "map vectorScoreNormalized (map_values (hybrid_resultMap (1 / 2) (1 / 2) [] lone_candidate))
             = [1 / 2]"
    by (simp add: normalise_eval lone_candidate_def)
  have e: "map (\<lambda>e. (entry_id e, bm25Normalized e, vectorNormalized e))
             (allResults example_bm25 example_vector)
           = [(''a'', 1, 4 / 5), (''b'', 1 / 4, 0), (''c'', 0, 9 / 10)]"
    by (simp add: normalise_eval example_bm25_def example_vector_def)
  from a b c d e show ?thesis by blast
qed

section \<open>Order of the fused list\<close>

lemma keys_map_set: "map fst (map_set k v m) = set_add k (map fst m)"
  by (induction m) (force simp: set_add_def)+

lemma keys_process_bm25:
  "map fst (process_bm25 lo hi i docs m) = foldl (\<lambda>s x. set_add x s) (map fst m) (map cand_id docs)"
  by (induction docs arbitrary: i m) (simp_all add: keys_map_set)

lemma map_get_None_iff: "map_get k m = None \<longleftrightarrow> k \<notin> set (map fst m)"
  by (induction m) (force split: if_splits)+

lemma keys_vector_step: "map fst (vector_step lo hi d i m) = set_add (cand_id d) (map fst m)"
  by (cases "map_get (cand_id d) m") (simp_all add: vector_step_def map_has_get keys_map_set)

lemma keys_process_vector:
  "map fst (process_vector lo hi i docs m) = foldl (\<lambda>s x. set_add x s) (map fst m) (map cand_id docs)"
  by (induction docs arbitrary: i m) (simp_all add: keys_vector_step)

lemma keys_resultMap: "map fst (resultMap bs vs) = new_Set (map cand_id bs @ map cand_id vs)"
  by (simp add: resultMap_def keys_process_vector keys_process_bm25 new_Set_def)

lemma entry_id_is_key:
  assumes "(k, e) \<in> set (resultMap bs vs)"
  shows "entry_id e = k"
  using _ _ _ assms
  by (rule resultMap_pred [where P = "\<lambda>k e. entry_id e = k"])
     (simp_all add: bm25_entry_def vector_entry_def merge_vector_def)

lemma ids_allResults: "map entry_id (allResults bs vs) = new_Set (map cand_id bs @ map cand_id vs)"
proof -
  have "map entry_id (allResults bs vs) = map (\<lambda>p. entry_id (snd p)) (resultMap bs vs)"
    by (simp add: allResults_def map_values_def)
  also have "\<dots> = map fst (resultMap bs vs)"
    by (rule map_cong) (auto simp: entry_id_is_key)
  finally show ?thesis by (simp add: keys_resultMap)
qed


lemmas fusion_eval = fusedResults_def sort_by_fused_def fuse_def rrf_fuse_def weighted_fuse_def
  reciprocal_fuse_def allResults_def resultMap_def map_values_def vector_step_def
  bm25_entry_def vector_entry_def merge_vector_def truthy_rank_def rrf_k_def
  normalizeBM25_def normalizeVector_def minBM25_def maxBM25_def minVector_def maxVector_def
  Math_min_with_def Math_max_with_def Let_def

lemma tie_rrf_order:
  "fusedResults ''rrf'' (1 / 2) (1 / 2) tie_bm25 tie_vector
     = [\<lparr> fdoc = bm25_entry 0 1 \<lparr>cand_id = ''b'', cand_score = 1\<rparr> 0, fusedScore = 1 / 61 \<rparr>,
        \<lparr> fdoc = vector_entry 0 1 \<lparr>cand_id = ''a'', cand_score = 1\<rparr> 0, fusedScore = 1 / 61 \<rparr>]"
  by (simp add: fusion_eval tie_bm25_def tie_vector_def)

lemma tie_weighted_order:
  "map (\<lambda>f. (entry_id (fdoc f), fusedScore f, original_rank (fdoc f)))
       (fusedResults ''weighted'' (1 / 2) (1 / 2) rank_tie_bm25 rank_tie_vector)
     = [(''p'', 1 / 2, 1), (''q'', 1 / 4, 2), (''r'', 1 / 4, 1)]"
  by (simp add: fusion_eval rank_tie_bm25_def rank_tie_vector_def original_rank_def)

text \<open>
  C7, as stated, does not hold. With reciprocal rank fusion, the lexical hit \<open>b\<close> at
  rank 1 and the vector hit \<open>a\<close> at rank 1 have the same fused score and the same
  original rank; the list is \<open>b, a\<close>, against the order of the ids. With weighted
  fusion, the lexical hit \<open>q\<close> at rank 2 and the vector hit \<open>r\<close> at rank 1 have the
  same fused score; the list has \<open>q\<close> before \<open>r\<close>, against the order of the ranks.
\<close>

theorem tie_break_counterexample:
  "\<not> sorted_wrt tie_break_order (fusedResults ''rrf'' (1 / 2) (1 / 2) tie_bm25 tie_vector)
   \<and> \<not> sorted_wrt tie_break_order
         (fusedResults ''weighted'' (1 / 2) (1 / 2) rank_tie_bm25 rank_tie_vector)"
proof
  show "\<not> sorted_wrt tie_break_order (fusedResults ''rrf'' (1 / 2) (1 / 2) tie_bm25 tie_vector)"
    by (simp add: tie_rrf_order tie_break_order_def original_rank_def bm25_entry_def vector_entry_def)
next
  show "\<not> sorted_wrt tie_break_order
         (fusedResults ''weighted'' (1 / 2) (1 / 2) rank_tie_bm25 rank_tie_vector)"
    by (simp add: fusion_eval rank_tie_bm25_def rank_tie_vector_def tie_break_order_def original_rank_def)
qed

text \<open>
  C7, amended. The fused list is sorted by descending fused score, and it is a
  permutation of the fused candidates. The sort is stable: the candidates of any one
  fused score stand in the order of the union, which lists the ids in the order of
  their first occurrence in the lexical list followed by the vector list (lexical
  candidates by lexical rank, then the candidates found only by the vector search by
  vector rank). No comparison of ranks or ids takes part.
\<close>

theorem fused_sorted_stable:
  "sorted_wrt (\<lambda>a b. fusedScore b \<le> fusedScore a) (fusedResults fm wb wv bs vs)
   \<and> mset (fusedResults fm wb wv bs vs) = mset (fuse fm wb wv (allResults bs vs))
   \<and> filter (\<lambda>f. fusedScore f = s) (fusedResults fm wb wv bs vs)
       = filter (\<lambda>f. fusedScore f = s) (fuse fm wb wv (allResults bs vs))
   \<and> map (\<lambda>f. entry_id (fdoc f)) (fuse fm wb wv (allResults bs vs))
       = (if fm \<in> {''rrf'', ''weighted'', ''reciprocal''}
          then new_Set (map cand_id bs @ map cand_id vs) else [])"
proof -
  let ?fs = "fuse fm wb wv (allResults bs vs)"
  have "sorted (map (\<lambda>d. - fusedScore d) (sort_key (\<lambda>d. - fusedScore d) ?fs))"
    by (rule sorted_sort_key)
  then have a: "sorted_wrt (\<lambda>a b. fusedScore b \<le> fusedScore a) (fusedResults fm wb wv bs vs)"
    by (simp add: fusedResults_def sort_by_fused_def sorted_map)
  have b: "mset (fusedResults fm wb wv bs vs) = mset ?fs"
    by (simp add: fusedResults_def sort_by_fused_def)
  have "filter (\<lambda>f. - fusedScore f = - s) (sort_key (\<lambda>d. - fusedScore d) ?fs)
          = filter (\<lambda>f. - fusedScore f = - s) ?fs"
    by (rule sort_key_stable)
  then have c: "filter (\<lambda>f. fusedScore f = s) (fusedResults fm wb wv bs vs)
                  = filter (\<lambda>f. fusedScore f = s) ?fs"
    by (simp add: fusedResults_def sort_by_fused_def)
  have d: "map (\<lambda>f. entry_id (fdoc f)) ?fs
             = (if fm \<in> {''rrf'', ''weighted'', ''reciprocal''}
                then new_Set (map cand_id bs @ map cand_id vs) else [])"
    using ids_allResults [of bs vs]
    by (simp add: fuse_def rrf_fuse_def weighted_fuse_def reciprocal_fuse_def Let_def comp_def)
  from a b c d show ?thesis by blast
qed

section \<open>Reciprocal rank fusion\<close>

lemma rank_from_None: "k \<notin> set (map cand_id ds) \<Longrightarrow> rank_from i ds k = None"
  by (induction ds arbitrary: i) auto

lemma rank_from_Some_gt: "rank_from i ds k = Some r \<Longrightarrow> i < r"
  by (induction ds arbitrary: i) (auto split: if_splits dest: Suc_lessD)

lemma rank_from_nth:
  "distinct (map cand_id ds) \<Longrightarrow> j < length ds \<Longrightarrow> rank_from i ds (cand_id (ds ! j)) = Some (i + j + 1)"
proof (induction ds arbitrary: i j)
  case Nil
  then show ?case by simp
next
  case (Cons d ds)
  show ?case
  proof (cases j)
    case 0
    then show ?thesis by simp
  next
    case (Suc j')
    then have "cand_id (ds ! j') \<in> set (map cand_id ds)" using Cons.prems(2) by simp
    then have "cand_id d \<noteq> cand_id (ds ! j')" using Cons.prems(1) by auto
    then show ?thesis using Suc Cons.IH [of j' "Suc i"] Cons.prems by simp
  qed
qed

lemma ranks_process_bm25:
  "distinct (map cand_id docs) \<Longrightarrow>
     map_option ranks (map_get k (process_bm25 lo hi i docs m))
       = (case rank_from i docs k of
            Some r \<Rightarrow> Some (Some r, None)
          | None \<Rightarrow> map_option ranks (map_get k m))"
proof (induction docs arbitrary: i m)
  case Nil
  show ?case by simp
next
  case (Cons d ds)
  have dist: "distinct (map cand_id ds)" and fresh: "cand_id d \<notin> set (map cand_id ds)"
    using Cons.prems by simp_all
  note ih = Cons.IH [OF dist, of "Suc i" "map_set (cand_id d) (bm25_entry lo hi d i) m"]
  show ?case
  proof (cases "cand_id d = k")
    case True
    then have "rank_from (Suc i) ds k = None" using fresh by (simp add: rank_from_None)
    then show ?thesis using True ih
      by (simp add: map_get_map_set ranks_def bm25_entry_def)
  next
    case False
    then show ?thesis using ih by (simp add: map_get_map_set split: option.splits)
  qed
qed

lemma map_get_vector_step:
  "map_get k (vector_step lo hi d i m)
     = (if k = cand_id d
        then Some (case map_get k m of Some ex \<Rightarrow> merge_vector lo hi d i ex
                                     | None \<Rightarrow> vector_entry lo hi d i)
        else map_get k m)"
  by (cases "map_get (cand_id d) m") (simp_all add: vector_step_def map_has_get map_get_map_set)

lemma ranks_process_vector:
  "distinct (map cand_id docs) \<Longrightarrow>
     map_option ranks (map_get k (process_vector lo hi i docs m))
       = (case rank_from i docs k of
            Some r \<Rightarrow> Some (case map_get k m of Some e0 \<Rightarrow> bm25Rank e0 | None \<Rightarrow> None, Some r)
          | None \<Rightarrow> map_option ranks (map_get k m))"
proof (induction docs arbitrary: i m)
  case Nil
  show ?case by simp
next
  case (Cons d ds)
  have dist: "distinct (map cand_id ds)" and fresh: "cand_id d \<notin> set (map cand_id ds)"
    using Cons.prems by simp_all
  note ih = Cons.IH [OF dist, of "Suc i" "vector_step lo hi d i m"]
  show ?case
  proof (cases "cand_id d = k")
    case True
    then have "rank_from (Suc i) ds k = None" using fresh by (simp add: rank_from_None)
    then show ?thesis using True ih
      by (cases "map_get k m")
         (simp_all add: map_get_vector_step ranks_def vector_entry_def merge_vector_def)
  next
    case False
    then show ?thesis using ih by (simp add: map_get_vector_step split: option.splits)
  qed
qed

lemma ranks_resultMap:
  assumes "distinct (map cand_id bs)" and "distinct (map cand_id vs)"
    and "map_get k (resultMap bs vs) = Some e"
  shows "bm25Rank e = rank_in bs k \<and> vectorRank e = rank_in vs k"
proof -
  let ?mb = "process_bm25 (minBM25 bs) (maxBM25 bs) 0 bs []"
  have b: "map_option ranks (map_get k ?mb)
             = (case rank_in bs k of Some r \<Rightarrow> Some (Some r, None) | None \<Rightarrow> None)"
    using ranks_process_bm25 [OF assms(1), of k "minBM25 bs" "maxBM25 bs" 0 "[]"]
    by (simp add: rank_in_def split: option.splits)
  have b': "(case map_get k ?mb of Some e0 \<Rightarrow> bm25Rank e0 | None \<Rightarrow> None) = rank_in bs k"
    using b by (cases "map_get k ?mb"; cases "rank_in bs k") (simp_all add: ranks_def)
  have v: "map_option ranks (map_get k (resultMap bs vs))
             = (case rank_in vs k of
                  Some r \<Rightarrow> Some (rank_in bs k, Some r)
                | None \<Rightarrow> map_option ranks (map_get k ?mb))"
    unfolding resultMap_def rank_in_def [of vs]
    using ranks_process_vector [OF assms(2), of k "minVector vs" "maxVector vs" 0 ?mb] b'
    by (simp split: option.splits)
  show ?thesis
    using v b assms(3)
    by (cases "rank_in vs k"; cases "rank_in bs k") (simp_all add: ranks_def)
qed


lemma set_add_props: "distinct s \<Longrightarrow> distinct (set_add x s) \<and> set (set_add x s) = insert x (set s)"
  by (auto simp: set_add_def)

lemma foldl_set_add_props:
  "distinct s \<Longrightarrow> distinct (foldl (\<lambda>s x. set_add x s) s xs)
                    \<and> set (foldl (\<lambda>s x. set_add x s) s xs) = set s \<union> set xs"
proof (induction xs arbitrary: s)
  case Nil
  then show ?case by simp
next
  case (Cons x xs)
  have "distinct (set_add x s)" and "set (set_add x s) = insert x (set s)"
    using set_add_props [OF Cons.prems, of x] by simp_all
  then show ?case using Cons.IH [of "set_add x s"] by auto
qed

lemma distinct_new_Set: "distinct (new_Set xs)"
  using foldl_set_add_props [of "[]" xs] by (simp add: new_Set_def)

lemma set_new_Set: "set (new_Set xs) = set xs"
  using foldl_set_add_props [of "[]" xs] by (simp add: new_Set_def)

lemma map_get_of_distinct: "distinct (map fst m) \<Longrightarrow> (k, v) \<in> set m \<Longrightarrow> map_get k m = Some v"
  by (induction m) (force split: if_splits)+

lemma rank_in_positive: "rank_in results k = Some r \<Longrightarrow> 0 < r"
  unfolding rank_in_def by (drule rank_from_Some_gt) simp

lemma rrf_term:
  "(if truthy_rank (rank_in results k) then 1 / real (rrf_k + the (rank_in results k)) else 0)
     = rrf_contribution (rank_in results k)"
proof (cases "rank_in results k")
  case None
  then show ?thesis by (simp add: truthy_rank_def rrf_contribution_def)
next
  case (Some r)
  then have "0 < r" by (rule rank_in_positive)
  then show ?thesis using Some by (simp add: truthy_rank_def rrf_contribution_def rrf_k_def add.commute)
qed

lemma rrf_fuse_score:
  assumes "bm25Rank e = rank_in bs k" and "vectorRank e = rank_in vs k"
  shows "fusedScore (rrf_fuse e) = rrf_contribution (rank_in bs k) + rrf_contribution (rank_in vs k)"
proof -
  have "fusedScore (rrf_fuse e)
          = (if truthy_rank (bm25Rank e) then 1 / real (rrf_k + the (bm25Rank e)) else 0)
            + (if truthy_rank (vectorRank e) then 1 / real (rrf_k + the (vectorRank e)) else 0)"
    by (simp add: rrf_fuse_def Let_def)
  then show ?thesis by (simp only: assms rrf_term)
qed

lemma rrf_fused_ids:
  "map (\<lambda>f. entry_id (fdoc f)) (fuse ''rrf'' wb wv (allResults bs vs))
     = new_Set (map cand_id bs @ map cand_id vs)"
  using ids_allResults [of bs vs] by (simp add: fuse_def rrf_fuse_def Let_def comp_def)

text \<open>
  C1. For two candidate lists without repeated ids, every fused candidate of the
  \<open>rrf\<close> method has the score 1 / (60 + lexical rank) + 1 / (60 + vector rank), where
  the rank of an id in a list is its position counted from 1 and a list that does not
  contain the id contributes 0; and the fused candidates are exactly the ids of the two
  lists, each once.
\<close>

theorem rrf_score_is_sum_of_reciprocal_ranks:
  assumes "distinct (map cand_id bs)" and "distinct (map cand_id vs)"
  shows "(\<forall>f \<in> set (fusedResults ''rrf'' wb wv bs vs).
            fusedScore f = rrf_contribution (rank_in bs (entry_id (fdoc f)))
                           + rrf_contribution (rank_in vs (entry_id (fdoc f))))
         \<and> set (map (\<lambda>f. entry_id (fdoc f)) (fusedResults ''rrf'' wb wv bs vs))
             = set (map cand_id bs) \<union> set (map cand_id vs)
         \<and> distinct (map (\<lambda>f. entry_id (fdoc f)) (fusedResults ''rrf'' wb wv bs vs))
         \<and> (\<forall>i < length bs. rank_in bs (cand_id (bs ! i)) = Some (i + 1))
         \<and> (\<forall>i < length vs. rank_in vs (cand_id (vs ! i)) = Some (i + 1))
         \<and> (\<forall>k. k \<notin> set (map cand_id bs) \<longrightarrow> rrf_contribution (rank_in bs k) = 0)
         \<and> (\<forall>k. k \<notin> set (map cand_id vs) \<longrightarrow> rrf_contribution (rank_in vs k) = 0)"
proof -
  let ?fs = "fuse ''rrf'' wb wv (allResults bs vs)"
  let ?ids = "\<lambda>fs. map (\<lambda>f. entry_id (fdoc f)) fs"
  have keys: "distinct (map fst (resultMap bs vs))"
    by (simp add: keys_resultMap distinct_new_Set)
  have score: "fusedScore f = rrf_contribution (rank_in bs (entry_id (fdoc f)))
                 + rrf_contribution (rank_in vs (entry_id (fdoc f)))"
    if "f \<in> set (fusedResults ''rrf'' wb wv bs vs)" for f
  proof -
    from that have "f \<in> set (map rrf_fuse (allResults bs vs))"
      by (simp add: fusedResults_def sort_by_fused_def fuse_def)
    then obtain e where f: "f = rrf_fuse e" and e: "e \<in> set (allResults bs vs)" by auto
    from e obtain k where ke: "(k, e) \<in> set (resultMap bs vs)"
      by (auto simp: allResults_def map_values_def)
    then have id: "entry_id e = k" by (rule entry_id_is_key)
    from keys ke have "map_get k (resultMap bs vs) = Some e" by (rule map_get_of_distinct)
    with assms have "bm25Rank e = rank_in bs k \<and> vectorRank e = rank_in vs k"
      by (rule ranks_resultMap)
    then have "fusedScore (rrf_fuse e)
                 = rrf_contribution (rank_in bs k) + rrf_contribution (rank_in vs k)"
      by (simp add: rrf_fuse_score)
    moreover have "entry_id (fdoc f) = k" using f id by (simp add: rrf_fuse_def Let_def)
    ultimately show ?thesis using f by simp
  qed
  have perm: "mset (?ids (fusedResults ''rrf'' wb wv bs vs)) = mset (?ids ?fs)"
    by (simp add: fusedResults_def sort_by_fused_def)
  have ids: "?ids ?fs = new_Set (map cand_id bs @ map cand_id vs)" by (rule rrf_fused_ids)
  have s: "set (?ids (fusedResults ''rrf'' wb wv bs vs)) = set (map cand_id bs) \<union> set (map cand_id vs)"
    using mset_eq_setD [OF perm] by (simp only: ids set_new_Set set_append)
  have d: "distinct (?ids (fusedResults ''rrf'' wb wv bs vs))"
    using mset_eq_imp_distinct_iff [OF perm] by (simp only: ids distinct_new_Set)
  have rb: "\<forall>i < length bs. rank_in bs (cand_id (bs ! i)) = Some (i + 1)"
    using rank_from_nth [OF assms(1), of _ 0] by (simp add: rank_in_def)
  have rv: "\<forall>i < length vs. rank_in vs (cand_id (vs ! i)) = Some (i + 1)"
    using rank_from_nth [OF assms(2), of _ 0] by (simp add: rank_in_def)
  have nb: "\<forall>k. k \<notin> set (map cand_id bs) \<longrightarrow> rrf_contribution (rank_in bs k) = 0"
    by (simp add: rank_in_def rank_from_None rrf_contribution_def)
  have nv: "\<forall>k. k \<notin> set (map cand_id vs) \<longrightarrow> rrf_contribution (rank_in vs k) = 0"
    by (simp add: rank_in_def rank_from_None rrf_contribution_def)
  from score s d rb rv nb nv show ?thesis by blast
qed

theorem rrf_score_is_sum_of_reciprocal_ranks_witness:
  "distinct (map cand_id example_bm25) \<and> distinct (map cand_id example_vector)
   \<and> map (\<lambda>f. (entry_id (fdoc f), fusedScore f))
         (fusedResults ''rrf'' (1 / 2) (1 / 2) example_bm25 example_vector)
       = [(''a'', 1 / 61 + 1 / 62), (''c'', 1 / 61), (''b'', 1 / 62)]
   \<and> list_all (\<lambda>f. fusedScore f = rrf_contribution (rank_in example_bm25 (entry_id (fdoc f)))
                                  + rrf_contribution (rank_in example_vector (entry_id (fdoc f))))
        (fusedResults ''rrf'' (1 / 2) (1 / 2) example_bm25 example_vector)"
proof -
  have b: "distinct (map cand_id example_bm25)" by (simp add: example_bm25_def)
  have v: "distinct (map cand_id example_vector)" by (simp add: example_vector_def)
  have l: "map (\<lambda>f. (entry_id (fdoc f), fusedScore f))
             (fusedResults ''rrf'' (1 / 2) (1 / 2) example_bm25 example_vector)
           = [(''a'', 1 / 61 + 1 / 62), (''c'', 1 / 61), (''b'', 1 / 62)]"
    by (simp add: fusion_eval example_bm25_def example_vector_def)
  from rrf_score_is_sum_of_reciprocal_ranks [OF b v, of "1 / 2" "1 / 2"]
  have "\<forall>f \<in> set (fusedResults ''rrf'' (1 / 2) (1 / 2) example_bm25 example_vector).
            fusedScore f = rrf_contribution (rank_in example_bm25 (entry_id (fdoc f)))
                           + rrf_contribution (rank_in example_vector (entry_id (fdoc f)))"
    by blast
  then show ?thesis using b v l by (simp add: list_all_iff)
qed

section \<open>Deduplication follows its contract\<close>

subsection \<open>The pieces of a split\<close>

lemma ws_fields_nonempty: "ws_fields s \<noteq> []"
  by (induction s) simp_all

text \<open>
  What \<^verbatim>\<open>split\<close> returns, in terms of the fields: the first field; of the fields
  between the first and the last, the non-empty ones; and the last field.
\<close>

lemma split_ws_fields:
  "(\<forall>cur. split_ws False cur s
            = (rev cur @ hd (ws_fields s))
              # (if tl (ws_fields s) = [] then []
                 else filter (\<lambda>w. w \<noteq> []) (butlast (tl (ws_fields s))) @ [last (ws_fields s)]))
   \<and> split_ws True [] s = filter (\<lambda>w. w \<noteq> []) (butlast (ws_fields s)) @ [last (ws_fields s)]"
proof (induction s)
  case Nil
  show ?case by simp
next
  case (Cons c cs)
  note ne = ws_fields_nonempty [of cs]
  show ?case
  proof (cases "is_space c")
    case True
    then show ?thesis using Cons ne by simp
  next
    case False
    have f: "ws_fields (c # cs) = (c # hd (ws_fields cs)) # tl (ws_fields cs)"
      using False by simp
    have a: "split_ws False cur (c # cs)
               = (rev cur @ hd (ws_fields (c # cs)))
                 # (if tl (ws_fields (c # cs)) = [] then []
                    else filter (\<lambda>w. w \<noteq> []) (butlast (tl (ws_fields (c # cs))))
                         @ [last (ws_fields (c # cs))])" for cur
      using False Cons ne by (cases "ws_fields cs") (simp_all add: f)
    have b: "split_ws True [] (c # cs)
               = filter (\<lambda>w. w \<noteq> []) (butlast (ws_fields (c # cs))) @ [last (ws_fields (c # cs))]"
      using False Cons ne by (cases "ws_fields cs") (simp_all add: f)
    from a b show ?thesis by blast
  qed
qed

lemma hd_fields_empty: "hd (ws_fields s) = [] \<longleftrightarrow> s = [] \<or> is_space (hd s)"
  by (cases s) simp_all

lemma ws_fields_single_empty: "ws_fields s = [[]] \<longleftrightarrow> s = []"
  using ws_fields_nonempty by (cases s) auto

lemma last_fields_empty: "last (ws_fields s) = [] \<longleftrightarrow> s = [] \<or> is_space (last s)"
proof (induction s)
  case Nil
  show ?case by simp
next
  case (Cons c cs)
  note ne = ws_fields_nonempty [of cs]
  show ?case
  proof (cases "cs = []")
    case True
    then show ?thesis by simp
  next
    case False
    show ?thesis
    proof (cases "tl (ws_fields cs) = []")
      case True
      then obtain f where single: "ws_fields cs = [f]"
        using ne by (cases "ws_fields cs") simp_all
      then have "f \<noteq> []" using False ws_fields_single_empty [of cs] by auto
      then have "\<not> is_space (last cs)" using Cons False single by simp
      then show ?thesis using False single \<open>f \<noteq> []\<close> by simp
    next
      case nt: False
      then have "last (ws_fields (c # cs)) = last (ws_fields cs)"
        using ne by (cases "ws_fields cs") simp_all
      then show ?thesis using Cons False by simp
    qed
  qed
qed

lemma first_interior_last:
  assumes "F \<noteq> []"
  shows "set (hd F # (if tl F = [] then [] else filter (\<lambda>w. w \<noteq> []) (butlast (tl F)) @ [last F]))
           = set (filter (\<lambda>w. w \<noteq> []) F) \<union> (if hd F = [] \<or> last F = [] then {[]} else {})"
proof (cases F)
  case Nil
  with assms show ?thesis by simp
next
  case (Cons f fs)
  show ?thesis
  proof (cases "fs = []")
    case True
    then show ?thesis using Cons by auto
  next
    case False
    then have fs: "fs = butlast fs @ [last fs]" by simp
    have "set (filter (\<lambda>w. w \<noteq> []) fs)
            = set (filter (\<lambda>w. w \<noteq> []) (butlast fs)) \<union> (if last fs \<noteq> [] then {last fs} else {})"
      by (subst fs) auto
    then show ?thesis using Cons False by auto
  qed
qed

lemma split_whitespace_pieces: "set (split_whitespace s) = pieces s"
proof -
  have "split_whitespace s
          = hd (ws_fields s)
            # (if tl (ws_fields s) = [] then []
               else filter (\<lambda>w. w \<noteq> []) (butlast (tl (ws_fields s))) @ [last (ws_fields s)])"
    using split_ws_fields [of s] by (simp add: split_whitespace_def)
  then have "set (split_whitespace s)
               = set (filter (\<lambda>w. w \<noteq> []) (ws_fields s))
                 \<union> (if hd (ws_fields s) = [] \<or> last (ws_fields s) = [] then {[]} else {})"
    using first_interior_last [OF ws_fields_nonempty, of s] by simp
  then show ?thesis
    by (simp add: pieces_def words_def hd_fields_empty last_fields_empty)
qed

lemma split_ws_nonempty: "split_ws insep cur s \<noteq> []"
  by (induction s arbitrary: insep cur) simp_all

subsection \<open>The similarity\<close>

lemma length_new_Set: "length (new_Set xs) = card (set xs)"
  using distinct_card [OF distinct_new_Set, of xs] by (simp add: set_new_Set)

lemma similarity_jaccard:
  "calculateTextSimilarity L text1 text2 = jaccard (pieces (L text1)) (pieces (L text2))"
proof -
  let ?w1 = "new_Set (split_whitespace (L text1))"
  let ?w2 = "new_Set (split_whitespace (L text2))"
  have i: "set (filter (\<lambda>x. x \<in> set ?w2) ?w1) = set ?w1 \<inter> set ?w2" by auto
  have u: "set (?w1 @ ?w2) = set ?w1 \<union> set ?w2" by simp
  show ?thesis
    unfolding calculateTextSimilarity_def Let_def jaccard_def length_new_Set i u
    by (simp only: set_new_Set split_whitespace_pieces)
qed

lemma jaccard_le_1: "jaccard A B \<le> 1"
proof (cases "finite (A \<union> B)")
  case True
  then have "card (A \<inter> B) \<le> card (A \<union> B)" by (intro card_mono) auto
  then show ?thesis by (simp add: jaccard_def divide_le_eq)
next
  case False
  then show ?thesis by (simp add: jaccard_def)
qed

lemma similarity_le_1: "calculateTextSimilarity L a b \<le> 1"
  by (simp add: similarity_jaccard jaccard_le_1)

lemma similarity_self: "calculateTextSimilarity L a a = 1"
proof -
  have "split_whitespace (L a) \<noteq> []"
    by (simp add: split_whitespace_def split_ws_nonempty)
  then have "card (set (split_whitespace (L a))) \<noteq> 0" by simp
  then show ?thesis by (simp add: similarity_jaccard jaccard_def flip: split_whitespace_pieces)
qed

lemma lower_title_key:
  assumes "\<forall>s. L (L s) = L s"
  shows "L (title_key L x) = L (title_text x)"
  using assms by (cases "title x") (simp_all add: title_key_def title_text_def)

lemma code_similarity_pieces:
  assumes "\<forall>s. L (L s) = L s"
  shows "code_similarity L = piece_similarity L"
proof (intro ext)
  fix x k
  show "code_similarity L x k = piece_similarity L x k"
    by (simp add: code_similarity_def piece_similarity_def similarity_jaccard
          lower_title_key [OF assms])
qed

subsection \<open>The loop\<close>

lemma map_set_fresh: "k \<notin> set (map fst m) \<Longrightarrow> map_set k v m = m @ [(k, v)]"
  by (induction m) auto

lemma first_similar_None:
  "first_similar L t key seen = None \<Longrightarrow> (k, r) \<in> set seen \<Longrightarrow> calculateTextSimilarity L key k < t"
  by (induction seen) (auto split: if_splits)

lemma first_similar_above_1: "1 < t \<Longrightarrow> first_similar L t key seen = None"
proof (induction seen)
  case Nil
  show ?case by simp
next
  case (Cons p seen)
  obtain k r where p: "p = (k, r)" by (cases p)
  have "calculateTextSimilarity L key k \<le> 1" by (rule similarity_le_1)
  then show ?case using Cons p by simp
qed

lemma first_colliding_above_1: "1 < t \<Longrightarrow> first_colliding (code_similarity L) t x kept = None"
proof (induction kept)
  case Nil
  show ?case by simp
next
  case (Cons k kept)
  have "code_similarity L x k \<le> 1" by (simp add: code_similarity_def similarity_le_1)
  then show ?case using Cons by simp
qed

lemma first_similar_kept:
  "first_similar L t (title_key L x) (map (\<lambda>r. (title_key L r, r)) kept)
     = (case first_colliding (code_similarity L) t x kept of
          None \<Rightarrow> None
        | Some k \<Rightarrow> Some (k, code_similarity L x k))"
  by (induction kept) (simp_all add: code_similarity_def)

lemma dedup_step_refines:
  assumes "t \<le> 1" and "seen_is_kept L st"
  shows "seen_is_kept L (dedup_step L t st x)
         \<and> (case first_colliding (code_similarity L) t x (deduplicated st) of
               Some k \<Rightarrow> deduplicated (dedup_step L t st x) = deduplicated st
                          \<and> map removed_record (duplicates (dedup_step L t st x))
                              = map removed_record (duplicates st) @ [(x, item_id k)]
             | None \<Rightarrow> deduplicated (dedup_step L t st x) = deduplicated st @ [x]
                        \<and> map removed_record (duplicates (dedup_step L t st x))
                              = map removed_record (duplicates st))"
proof (cases "first_colliding (code_similarity L) t x (deduplicated st)")
  case None
  then have fs: "first_similar L t (title_key L x) (seenTitles st) = None"
    using assms(2) by (simp add: seen_is_kept_def first_similar_kept)
  have "title_key L x \<notin> set (map fst (seenTitles st))"
  proof
    assume "title_key L x \<in> set (map fst (seenTitles st))"
    then obtain r where "(title_key L x, r) \<in> set (seenTitles st)" by auto
    with fs have "calculateTextSimilarity L (title_key L x) (title_key L x) < t"
      by (rule first_similar_None)
    then show False using assms(1) by (simp add: similarity_self)
  qed
  then have "map_set (title_key L x) x (seenTitles st) = seenTitles st @ [(title_key L x, x)]"
    by (rule map_set_fresh)
  then show ?thesis
    using None fs assms(2) by (simp add: dedup_step_def seen_is_kept_def)
next
  case (Some k)
  then have "first_similar L t (title_key L x) (seenTitles st) = Some (k, code_similarity L x k)"
    using assms(2) by (simp add: seen_is_kept_def first_similar_kept)
  then show ?thesis
    using Some assms(2) by (simp add: dedup_step_def seen_is_kept_def removed_record_def)
qed

lemma dedup_loop_refines:
  assumes "t \<le> 1" and "seen_is_kept L st"
  shows "(deduplicated (dedup_loop L t xs st), map removed_record (duplicates (dedup_loop L t xs st)))
           = dedup_spec (code_similarity L) t xs (deduplicated st) (map removed_record (duplicates st))"
  using assms(2)
proof (induction xs arbitrary: st)
  case Nil
  show ?case by simp
next
  case (Cons x xs)
  note step = dedup_step_refines [OF assms(1) Cons.prems, of x]
  then have inv: "seen_is_kept L (dedup_step L t st x)" by simp
  show ?case
    using Cons.IH [OF inv] step
    by (cases "first_colliding (code_similarity L) t x (deduplicated st)") simp_all
qed

lemma dedup_step_above_1:
  assumes "1 < t"
  shows "deduplicated (dedup_step L t st x) = deduplicated st @ [x]
         \<and> duplicates (dedup_step L t st x) = duplicates st"
  using first_similar_above_1 [OF assms] by (simp add: dedup_step_def)

lemma dedup_loop_above_1:
  assumes "1 < t"
  shows "(deduplicated (dedup_loop L t xs st), map removed_record (duplicates (dedup_loop L t xs st)))
           = dedup_spec (code_similarity L) t xs (deduplicated st) (map removed_record (duplicates st))"
proof (induction xs arbitrary: st)
  case Nil
  show ?case by simp
next
  case (Cons x xs)
  show ?case
    using Cons.IH [of "dedup_step L t st x"] dedup_step_above_1 [OF assms, of L st x]
      first_colliding_above_1 [OF assms, of L x "deduplicated st"]
    by simp
qed

lemma dedup_loop_code_similarity:
  "(deduplicated (dedup_loop L t rs dedup_init),
    map removed_record (duplicates (dedup_loop L t rs dedup_init)))
     = dedup_spec (code_similarity L) t rs [] []"
proof (cases "t \<le> 1")
  case True
  have init: "seen_is_kept L dedup_init" by (simp add: seen_is_kept_def dedup_init_def)
  from dedup_loop_refines [OF True init, of rs] show ?thesis by (simp add: dedup_init_def)
next
  case False
  then have "1 < t" by simp
  from dedup_loop_above_1 [OF this, of L rs dedup_init] show ?thesis by (simp add: dedup_init_def)
qed

lemma dedup_step_kept:
  "deduplicated (dedup_step L t st x) = deduplicated st
   \<or> deduplicated (dedup_step L t st x) = deduplicated st @ [x]"
  by (simp add: dedup_step_def split: option.splits prod.splits)

lemma dedup_loop_kept_subseq:
  "\<exists>ys. deduplicated (dedup_loop L t xs st) = deduplicated st @ ys \<and> subseq ys xs"
proof (induction xs arbitrary: st)
  case Nil
  show ?case by simp
next
  case (Cons x xs)
  from Cons.IH [of "dedup_step L t st x"] obtain ys where
    ys: "deduplicated (dedup_loop L t xs (dedup_step L t st x)) = deduplicated (dedup_step L t st x) @ ys"
    and sub: "subseq ys xs" by blast
  from dedup_step_kept [of L t st x] show ?case
  proof
    assume "deduplicated (dedup_step L t st x) = deduplicated st"
    then have "deduplicated (dedup_loop L t (x # xs) st) = deduplicated st @ ys" using ys by simp
    moreover have "subseq ys (x # xs)" using sub by (rule list_emb_Cons)
    ultimately show ?thesis by blast
  next
    assume "deduplicated (dedup_step L t st x) = deduplicated st @ [x]"
    then have "deduplicated (dedup_loop L t (x # xs) st) = deduplicated st @ (x # ys)" using ys by simp
    moreover have "subseq (x # ys) (x # xs)" using sub by simp
    ultimately show ?thesis by blast
  qed
qed

lemma first_colliding_None_iff:
  "first_colliding sim t x kept = None \<longleftrightarrow> (\<forall>k \<in> set kept. sim x k < t)"
  by (induction kept) auto

lemma first_colliding_Some:
  "first_colliding sim t x kept = Some k \<Longrightarrow> k \<in> set kept \<and> t \<le> sim x k"
  by (induction kept) (auto split: if_splits)

subsection \<open>Concrete titles\<close>

lemma ascii_toLowerCase_idem: "\<forall>s. ascii_toLowerCase (ascii_toLowerCase s) = ascii_toLowerCase s"
  by (simp add: ascii_toLowerCase_def)

lemmas dedup_eval = dedup_step_def dedup_init_def title_key_def calculateTextSimilarity_def
  new_Set_def set_add_def split_whitespace_def is_space_def js_def ascii_toLowerCase_def Let_def

lemmas contract_eval = word_similarity_def title_text_def jaccard_def words_def is_space_def
  js_def ascii_toLowerCase_def

lemma trailing_space_code:
  "(deduplicated (dedup_loop ascii_toLowerCase (85 / 100) trailing_space_items dedup_init),
    map removed_record (duplicates (dedup_loop ascii_toLowerCase (85 / 100) trailing_space_items dedup_init)))
     = (trailing_space_items, [])"
  by (simp add: dedup_eval trailing_space_items_def)

lemma trailing_space_contract:
  "dedup_spec (word_similarity ascii_toLowerCase) (85 / 100) trailing_space_items [] []
     = ([\<lparr> title = Some (js ''Login OTP''), item_id = Some ''TC_1'' \<rparr>],
        [(\<lparr> title = Some (js ''Login OTP ''), item_id = Some ''TC_2'' \<rparr>, Some ''TC_1'')])"
  by (simp add: trailing_space_items_def contract_eval)

lemma untitled_code:
  "(deduplicated (dedup_loop ascii_toLowerCase (85 / 100) untitled_items dedup_init),
    map removed_record (duplicates (dedup_loop ascii_toLowerCase (85 / 100) untitled_items dedup_init)))
     = ([\<lparr> title = None, item_id = Some ''TC_1'' \<rparr>],
        [(\<lparr> title = None, item_id = Some ''TC_2'' \<rparr>, Some ''TC_1'')])"
  by (simp add: dedup_eval untitled_items_def removed_record_def)

lemma untitled_contract:
  "dedup_spec (word_similarity ascii_toLowerCase) (85 / 100) untitled_items [] []
     = (untitled_items, [])"
  by (simp add: untitled_items_def contract_eval)

lemma scenario_code:
  "(map item_id (deduplicated (dedup_loop ascii_toLowerCase (85 / 100) scenario_items dedup_init)),
    map (\<lambda>d. (item_id (dup_item d), duplicateOf d))
      (duplicates (dedup_loop ascii_toLowerCase (85 / 100) scenario_items dedup_init)))
     = ([Some ''TC_1'', Some ''TC_2'', Some ''TC_3'', Some ''TC_5''], [(Some ''TC_4'', Some ''TC_2'')])"
  by (simp add: dedup_eval scenario_items_def)

lemma trailing_space_similarities:
  "calculateTextSimilarity ascii_toLowerCase (js ''login otp'') (js ''login otp '') = 2 / 3
   \<and> word_similarity ascii_toLowerCase
        \<lparr> title = Some (js ''Login OTP ''), item_id = Some ''TC_2'' \<rparr>
        \<lparr> title = Some (js ''Login OTP''), item_id = Some ''TC_1'' \<rparr> = 1"
  by (simp add: dedup_eval contract_eval)

lemma untitled_similarities:
  "calculateTextSimilarity ascii_toLowerCase [] [] = 1
   \<and> word_similarity ascii_toLowerCase
        \<lparr> title = None, item_id = Some ''TC_2'' \<rparr> \<lparr> title = None, item_id = Some ''TC_1'' \<rparr> = 0"
  by (simp add: dedup_eval contract_eval)

text \<open>
  C4, as stated, does not hold. The titles \<open>Login OTP\<close> and \<open>Login OTP\<close> followed by a
  space have the same lower-cased words, hence the Jaccard similarity 1, and the
  contract removes the second item at the threshold 0.85; the handler keeps both, since
  the split of the second title has the empty string as a third piece (similarity 2/3).
  Two items without a title have no words, and the contract keeps both; the handler
  removes the second, since each of them splits into the one empty piece
  (similarity 1).
\<close>

theorem word_tokenisation_counterexample:
  "(deduplicated (dedup_loop ascii_toLowerCase (85 / 100) trailing_space_items dedup_init),
    map removed_record (duplicates (dedup_loop ascii_toLowerCase (85 / 100) trailing_space_items dedup_init)))
     = (trailing_space_items, [])
   \<and> dedup_spec (word_similarity ascii_toLowerCase) (85 / 100) trailing_space_items [] []
     = ([\<lparr> title = Some (js ''Login OTP''), item_id = Some ''TC_1'' \<rparr>],
        [(\<lparr> title = Some (js ''Login OTP ''), item_id = Some ''TC_2'' \<rparr>, Some ''TC_1'')])
   \<and> calculateTextSimilarity ascii_toLowerCase (js ''login otp'') (js ''login otp '') = 2 / 3
   \<and> (deduplicated (dedup_loop ascii_toLowerCase (85 / 100) untitled_items dedup_init),
       map removed_record (duplicates (dedup_loop ascii_toLowerCase (85 / 100) untitled_items dedup_init)))
     = ([\<lparr> title = None, item_id = Some ''TC_1'' \<rparr>],
        [(\<lparr> title = None, item_id = Some ''TC_2'' \<rparr>, Some ''TC_1'')])
   \<and> dedup_spec (word_similarity ascii_toLowerCase) (85 / 100) untitled_items [] []
     = (untitled_items, [])
   \<and> (deduplicated (dedup_loop ascii_toLowerCase (85 / 100) trailing_space_items dedup_init),
       map removed_record (duplicates (dedup_loop ascii_toLowerCase (85 / 100) trailing_space_items dedup_init)))
     \<noteq> dedup_spec (word_similarity ascii_toLowerCase) (85 / 100) trailing_space_items [] []
   \<and> (deduplicated (dedup_loop ascii_toLowerCase (85 / 100) untitled_items dedup_init),
       map removed_record (duplicates (dedup_loop ascii_toLowerCase (85 / 100) untitled_items dedup_init)))
     \<noteq> dedup_spec (word_similarity ascii_toLowerCase) (85 / 100) untitled_items [] []"
  unfolding trailing_space_code trailing_space_contract untitled_code untitled_contract
  using trailing_space_similarities
  by (simp add: trailing_space_items_def untitled_items_def)

text \<open>
  C4, amended. For every threshold and every input list, and for a lower-casing that
  changes nothing in a string it has already lower-cased, the loop of the handler
  computes what the contract describes: walking the input in order, an item is removed
  exactly when some item kept so far has a title similarity of at least the threshold,
  and the removed record then carries the id of the first such kept item; otherwise the
  item is kept. The kept items are a subsequence of the input, so they stand in input
  order. The similarity of two items is the Jaccard similarity of the sets of pieces of
  their lower-cased titles (the empty string for a missing title), where the pieces of
  a string are its words and, when the string is empty or starts or ends with white
  space, the empty string. An omitted threshold is 0.85.
\<close>

theorem deduplication_follows_contract:
  assumes "\<forall>s. toLowerCase (toLowerCase s) = toLowerCase s"
  shows "(deduplicated (dedup_loop toLowerCase t rs dedup_init),
          map removed_record (duplicates (dedup_loop toLowerCase t rs dedup_init)))
           = dedup_spec (piece_similarity toLowerCase) t rs [] []
         \<and> subseq (deduplicated (dedup_loop toLowerCase t rs dedup_init)) rs
         \<and> deduplicate_handler toLowerCase \<lparr> db_results = Some rs, db_threshold = None \<rparr>
             = deduplicate_handler toLowerCase \<lparr> db_results = Some rs, db_threshold = Some (85 / 100) \<rparr>"
proof -
  have a: "(deduplicated (dedup_loop toLowerCase t rs dedup_init),
            map removed_record (duplicates (dedup_loop toLowerCase t rs dedup_init)))
             = dedup_spec (piece_similarity toLowerCase) t rs [] []"
    using dedup_loop_code_similarity [of toLowerCase t rs]
    by (simp only: code_similarity_pieces [OF assms])
  have b: "subseq (deduplicated (dedup_loop toLowerCase t rs dedup_init)) rs"
    using dedup_loop_kept_subseq [of toLowerCase t rs dedup_init] by (auto simp: dedup_init_def)
  have c: "deduplicate_handler toLowerCase \<lparr> db_results = Some rs, db_threshold = None \<rparr>
             = deduplicate_handler toLowerCase \<lparr> db_results = Some rs, db_threshold = Some (85 / 100) \<rparr>"
    by (simp add: deduplicate_handler_def or_default_def)
  from a b c show ?thesis by blast
qed

theorem deduplication_follows_contract_witness:
  "(\<forall>s. ascii_toLowerCase (ascii_toLowerCase s) = ascii_toLowerCase s)
   \<and> dedup_spec (piece_similarity ascii_toLowerCase) (85 / 100) trailing_space_items [] []
       = (trailing_space_items, [])
   \<and> dedup_spec (piece_similarity ascii_toLowerCase) (85 / 100) untitled_items [] []
       = ([\<lparr> title = None, item_id = Some ''TC_1'' \<rparr>],
          [(\<lparr> title = None, item_id = Some ''TC_2'' \<rparr>, Some ''TC_1'')])
   \<and> map item_id (fst (dedup_spec (piece_similarity ascii_toLowerCase) (85 / 100) scenario_items [] []))
       = [Some ''TC_1'', Some ''TC_2'', Some ''TC_3'', Some ''TC_5'']
   \<and> map (\<lambda>r. (item_id (fst r), snd r))
         (snd (dedup_spec (piece_similarity ascii_toLowerCase) (85 / 100) scenario_items [] []))
       = [(Some ''TC_4'', Some ''TC_2'')]
   \<and> subseq (deduplicated (dedup_loop ascii_toLowerCase (85 / 100) scenario_items dedup_init))
        scenario_items"
proof -
  note contract = deduplication_follows_contract [OF ascii_toLowerCase_idem, of "85 / 100"]
  have a: "dedup_spec (piece_similarity ascii_toLowerCase) (85 / 100) trailing_space_items [] []
             = (trailing_space_items, [])"
    using contract [of trailing_space_items] by (simp only: trailing_space_code)
  have b: "dedup_spec (piece_similarity ascii_toLowerCase) (85 / 100) untitled_items [] []
             = ([\<lparr> title = None, item_id = Some ''TC_1'' \<rparr>],
                [(\<lparr> title = None, item_id = Some ''TC_2'' \<rparr>, Some ''TC_1'')])"
    using contract [of untitled_items] by (simp only: untitled_code)
  have c: "subseq (deduplicated (dedup_loop ascii_toLowerCase (85 / 100) scenario_items dedup_init))
             scenario_items"
    using contract [of scenario_items] by blast
  have "dedup_spec (piece_similarity ascii_toLowerCase) (85 / 100) scenario_items [] []
          = (deduplicated (dedup_loop ascii_toLowerCase (85 / 100) scenario_items dedup_init),
             map removed_record
               (duplicates (dedup_loop ascii_toLowerCase (85 / 100) scenario_items dedup_init)))"
    using contract [of scenario_items] by simp
  then have d: "map item_id (fst (dedup_spec (piece_similarity ascii_toLowerCase) (85 / 100) scenario_items [] []))
                  = [Some ''TC_1'', Some ''TC_2'', Some ''TC_3'', Some ''TC_5'']"
    and e: "map (\<lambda>r. (item_id (fst r), snd r))
              (snd (dedup_spec (piece_similarity ascii_toLowerCase) (85 / 100) scenario_items [] []))
                  = [(Some ''TC_4'', Some ''TC_2'')]"
    using scenario_code by (simp_all add: removed_record_def comp_def)
  from a b c d e ascii_toLowerCase_idem show ?thesis by blast
qed

end
